theory Spec2Isabelle
  imports Complex_Main "HOL-Library.Word" "HOL-Library.AList"
begin

section \<open>Shared vocabulary\<close>

text \<open>
  Go's \<open>time.Duration\<close> is a count of nanoseconds and \<open>time.Time\<close> an instant; both are
  integers here (the zero value of either is \<open>0\<close>). None of the modelled operations
  does arithmetic on them that could leave the 64-bit range.
\<close>

type_synonym duration = int
type_synonym time = int

definition Millisecond :: duration where
  "Millisecond = 1000000"

definition Hour :: duration where
  "Hour = 3600000000000"

text \<open>
  A Go \<open>map[K]V\<close> is an association list with distinct keys: \<open>map_of\<close> reads a key,
  \<open>AList.update\<close> stores one. The order of the list is \<^emph>\<open>not\<close> the order in which a
  \<open>for ... range\<close> visits the map: Go leaves that order unspecified, so every loop whose
  result can depend on it takes the visiting order as an argument, constrained by
  \<open>visits\<close> (every key exactly once).
\<close>

type_synonym ('k, 'v) gomap = "('k \<times> 'v) list"

definition keys :: "('k, 'v) gomap \<Rightarrow> 'k set" where
  "keys m = fst ` set m"

definition visits :: "('k, 'v) gomap \<Rightarrow> 'k list \<Rightarrow> bool" where
  "visits m order \<longleftrightarrow> distinct order \<and> set order = keys m"

text \<open>
  Errors are \<open>fmt.Errorf\<close> values in the source; each message format is one constructor,
  with the formatted arguments as its fields.
\<close>

datatype error =
    TunnelNotFound string                 \<comment> \<open>"tunnel %s not found"\<close>
  | UnsupportedTransport string           \<comment> \<open>"unsupported transport type: %s"\<close>
  | NoAvailableServers                    \<comment> \<open>"no available servers found"\<close>
  | FailedToStop string error             \<comment> \<open>"failed to stop tunnel %s: %v"\<close>
  | ErrorsStopping "error list"           \<comment> \<open>"errors stopping tunnels: %v"\<close>
  | NotImplemented string                 \<comment> \<open>"... not yet implemented"\<close>
  | AdapterError string                   \<comment> \<open>an error reported by the network or the OS\<close>
  | NilPointerPanic                       \<comment> \<open>a nil pointer dereference\<close>
  | ParseCIDRError string                 \<comment> \<open>the error of \<open>net.ParseCIDR\<close>\<close>
  | FailedToAssignMeshIP error            \<comment> \<open>"failed to assign mesh IP: %v"\<close>
  | FailedToCreateLocalNode error         \<comment> \<open>"failed to create local node: %v"\<close>
  | NoAvailableNodes                      \<comment> \<open>"no available nodes found"\<close>
  | NoHealthyNodes                        \<comment> \<open>"no healthy nodes available"\<close>
  | NotEncryptedData                      \<comment> \<open>"not encrypted data"\<close>
  | InvalidHex                            \<comment> \<open>the error of \<open>hex.DecodeString\<close>\<close>
  | CiphertextTooShort                    \<comment> \<open>"ciphertext too short"\<close>
  | AuthenticationFailed                  \<comment> \<open>"cipher: message authentication failed"\<close>
  | InvalidKeySize                        \<comment> \<open>the error of \<open>aes.NewCipher\<close>\<close>
  | RandomSourceError                     \<comment> \<open>the error of \<open>io.ReadFull(rand.Reader, ...)\<close>\<close>

section \<open>Package mesh: data\<close>

text \<open>
  The records of package \<open>mesh\<close> come first, so that the field names they share with
  the records of packages \<open>config\<close> and \<open>protocols\<close> (\<open>Name\<close>, \<open>Port\<close>, \<open>Status\<close>,
  \<open>Latency\<close>, \<open>Region\<close>, \<open>Tags\<close>, \<open>config\<close>) are written qualified for the mesh
  (\<open>MeshNode.Status\<close>) and plain for the others. \<open>LoadScore\<close> is a \<open>float64\<close> in
  the source and holds here the real number that a finite \<open>float64\<close> denotes: no
  operation of the source writes the field (\<open>updateLoadScores\<close> is empty), so no
  state of the program has an infinite or NaN load score.
\<close>

record MeshNode =
  ID :: string
  Name :: string
  PublicIP :: string
  PrivateIP :: string
  MeshIP :: string
  Port :: int
  PublicKey :: string
  PrivateKey :: string
  Status :: string
  LastSeen :: time
  Protocols :: "string list"
  LoadScore :: real
  Latency :: duration
  Tags :: "string list"
  Region :: string
  Capabilities :: "(string, bool) gomap"

record MeshConfig =
  NetworkCIDR :: string
  CoordinatorURL :: string
  LocalNodeName :: string
  AutoDiscovery :: bool
  HealthCheckInterval :: duration
  LoadBalancing :: string
  FailoverTimeout :: duration
  Encryption :: bool
  Tags :: "string list"
  Regions :: "string list"

text \<open>
  The network's maps hold pointers to nodes, and \<open>localNode\<close> is one more pointer that
  the loops compare with \<open>==\<close>. A pointer is an address into \<open>store\<close>; \<open>next_ref\<close> is
  the address the next allocation returns. (The route table and the coordinator node
  are written by no operation of the source and are left out, and so is the network's
  lock: no operation of the mesh takes it while holding it.)
\<close>

type_synonym ref = nat

record MeshNetwork =
  store :: "ref \<Rightarrow> MeshNode"
  next_ref :: ref
  nodes :: "(string, ref) gomap"
  localNode :: "ref option"
  config :: MeshConfig

text \<open>\<open>net.IP\<close> and \<open>net.IPMask\<close> are byte slices; \<open>net.IPNet\<close> is a pair of them.\<close>

type_synonym byte = "8 word"

record IPNet =
  IP :: "byte list"
  Mask :: "byte list"

section \<open>The type \<open>float64\<close>\<close>

text \<open>
  Go's \<open>float64\<close> is the binary64 format of IEEE 754: a value is NaN, one of the two
  infinities, or a finite number, given here by the real number it denotes. Every
  arithmetic operation computes the exact result and rounds it to the nearest value of
  the format, to the one with an even significand when two are equally near, and to an
  infinity when the rounded result is beyond the largest finite value. (The two zeros
  of the format are not told apart: they compare equal, and only a division by zero
  depends on the sign. The one divisor of this program is converted from an integer,
  which never gives the negative zero.)
\<close>

datatype float64 = NaN | PInf | MInf | Num real

text \<open>
  \<open>ilog2 x\<close> is the exponent of a positive \<open>x\<close>, the integer \<open>e\<close> with
  \<open>2 ^ e \<le> x < 2 ^ (e + 1)\<close>, found by halving or doubling; \<open>ulp x\<close> is the distance
  between neighbouring values of the format around \<open>x\<close>: the significand has 53 bits,
  and below \<open>2 ^ - 1022\<close> the values are evenly spaced.
\<close>

function ilog2 :: "real \<Rightarrow> int" where
  "ilog2 x = (if 2 \<le> x then ilog2 (x / 2) + 1 else if 0 < x \<and> x < 1 then ilog2 (x * 2) - 1 else 0)"
  by pat_completeness auto
termination
proof (relation "measure (\<lambda>x. nat \<bar>\<lfloor>log 2 x\<rfloor>\<bar>)")
  show "wf (measure (\<lambda>x. nat \<bar>\<lfloor>log 2 x\<rfloor>\<bar>))" by simp
next
  fix x :: real
  assume a: "2 \<le> x"
  then have "log 2 (x / 2) = log 2 x - 1" by (simp add: log_divide)
  then have m: "\<lfloor>log 2 (x / 2)\<rfloor> = \<lfloor>log 2 x\<rfloor> - 1" by simp
  have "1 \<le> log 2 x" using a by (simp add: le_log_iff)
  then have "1 \<le> \<lfloor>log 2 x\<rfloor>" by (simp add: le_floor_iff)
  then have "nat \<bar>\<lfloor>log 2 x\<rfloor> - 1\<bar> < nat \<bar>\<lfloor>log 2 x\<rfloor>\<bar>" by linarith
  then show "(x / 2, x) \<in> measure (\<lambda>x. nat \<bar>\<lfloor>log 2 x\<rfloor>\<bar>)"
    by (simp only: in_measure m)
next
  fix x :: real
  assume a: "\<not> 2 \<le> x" "0 < x \<and> x < 1"
  then have "log 2 (x * 2) = log 2 x + 1" by (simp add: log_mult)
  then have m: "\<lfloor>log 2 (x * 2)\<rfloor> = \<lfloor>log 2 x\<rfloor> + 1" by simp
  have "log 2 x < 0" using a by simp
  then have "\<lfloor>log 2 x\<rfloor> < 0" by (simp add: floor_less_iff)
  then have "nat \<bar>\<lfloor>log 2 x\<rfloor> + 1\<bar> < nat \<bar>\<lfloor>log 2 x\<rfloor>\<bar>" by linarith
  then show "(x * 2, x) \<in> measure (\<lambda>x. nat \<bar>\<lfloor>log 2 x\<rfloor>\<bar>)"
    by (simp only: in_measure m)
qed

declare ilog2.simps [simp del]

definition pow2 :: "int \<Rightarrow> real" where
  "pow2 e = (if 0 \<le> e then 2 ^ nat e else 1 / 2 ^ nat (- e))"

definition ulp :: "real \<Rightarrow> real" where
  "ulp x = pow2 (max (ilog2 \<bar>x\<bar>) (- 1022) - 52)"

definition nearest_even :: "real \<Rightarrow> int" where
  "nearest_even q =
     (let f = \<lfloor>q\<rfloor>
      in if q - of_int f < 1 / 2 then f
         else if 1 / 2 < q - of_int f then f + 1
         else if even f then f else f + 1)"

definition round64 :: "real \<Rightarrow> float64" where
  "round64 x =
     (let y = of_int (nearest_even (x / ulp x)) * ulp x
      in if 2 ^ 1024 \<le> \<bar>y\<bar> then (if 0 < x then PInf else MInf) else Num y)"

text \<open>
  The four operations. NaN operands give NaN, and so do the differences of equal
  infinities, the products of a zero and an infinity, and the quotients of two zeros or
  two infinities.
\<close>

fun fadd :: "float64 \<Rightarrow> float64 \<Rightarrow> float64" where
  "fadd (Num a) (Num b) = round64 (a + b)"
| "fadd NaN y = NaN"
| "fadd x NaN = NaN"
| "fadd PInf MInf = NaN"
| "fadd MInf PInf = NaN"
| "fadd PInf y = PInf"
| "fadd x PInf = PInf"
| "fadd MInf y = MInf"
| "fadd x MInf = MInf"

fun fneg :: "float64 \<Rightarrow> float64" where
  "fneg (Num a) = Num (- a)"
| "fneg PInf = MInf"
| "fneg MInf = PInf"
| "fneg NaN = NaN"

fun fsub :: "float64 \<Rightarrow> float64 \<Rightarrow> float64" where
  "fsub (Num a) (Num b) = round64 (a - b)"
| "fsub x y = fadd x (fneg y)"

fun fmul :: "float64 \<Rightarrow> float64 \<Rightarrow> float64" where
  "fmul (Num a) (Num b) = round64 (a * b)"
| "fmul NaN y = NaN"
| "fmul x NaN = NaN"
| "fmul PInf (Num b) = (if b = 0 then NaN else if 0 < b then PInf else MInf)"
| "fmul MInf (Num b) = (if b = 0 then NaN else if 0 < b then MInf else PInf)"
| "fmul (Num a) PInf = (if a = 0 then NaN else if 0 < a then PInf else MInf)"
| "fmul (Num a) MInf = (if a = 0 then NaN else if 0 < a then MInf else PInf)"
| "fmul PInf PInf = PInf"
| "fmul MInf MInf = PInf"
| "fmul PInf MInf = MInf"
| "fmul MInf PInf = MInf"

fun fdiv :: "float64 \<Rightarrow> float64 \<Rightarrow> float64" where
  "fdiv (Num a) (Num b) =
     (if b = 0 then (if a = 0 then NaN else if 0 < a then PInf else MInf)
      else round64 (a / b))"
| "fdiv NaN y = NaN"
| "fdiv x NaN = NaN"
| "fdiv (Num a) PInf = Num 0"
| "fdiv (Num a) MInf = Num 0"
| "fdiv PInf (Num b) = (if 0 \<le> b then PInf else MInf)"
| "fdiv MInf (Num b) = (if 0 \<le> b then MInf else PInf)"
| "fdiv PInf y = NaN"
| "fdiv MInf y = NaN"

text \<open>The comparison \<open>>\<close>: false whenever an operand is NaN.\<close>

fun fgt :: "float64 \<Rightarrow> float64 \<Rightarrow> bool" where
  "fgt (Num a) (Num b) \<longleftrightarrow> b < a"
| "fgt NaN y \<longleftrightarrow> False"
| "fgt x NaN \<longleftrightarrow> False"
| "fgt x PInf \<longleftrightarrow> False"
| "fgt PInf y \<longleftrightarrow> True"
| "fgt MInf y \<longleftrightarrow> False"
| "fgt (Num a) MInf \<longleftrightarrow> True"

section \<open>Package config: servers\<close>

text \<open>
  \<open>config.Server\<close> and \<open>config.Config\<close>, with the fields the modelled operations read.
  \<open>TransportType\<close> is a string type in the source.
\<close>

record Server =
  Name :: string
  Host :: string
  Port :: string
  Transport :: string
  Enabled :: bool
  Region :: string
  Tags :: "string list"

record Config =
  Servers :: "Server list"
  AutoSelect :: bool
  SelectionMethod :: string

definition TransportSSH :: string where "TransportSSH = ''ssh''"
definition TransportHysteria :: string where "TransportHysteria = ''hysteria''"
definition TransportV2Ray :: string where "TransportV2Ray = ''v2ray''"
definition TransportWireGuard :: string where "TransportWireGuard = ''wireguard''"
definition TransportTrojan :: string where "TransportTrojan = ''trojan''"
definition TransportVLESS :: string where "TransportVLESS = ''vless''"
definition TransportVMess :: string where "TransportVMess = ''vmess''"

section \<open>Package protocols: the tunnel manager\<close>

record TunnelStatus =
  ServerName :: string
  Status :: string
  StartTime :: time
  LastError :: string
  BytesSent :: nat
  BytesRecv :: nat
  Latency :: duration

text \<open>
  The \<open>Tunnel\<close> interface has one implementation per transport; each holds the server
  it was created for.
\<close>

datatype Tunnel =
    SSHTunnel Server
  | HysteriaTunnel Server
  | V2RayTunnel Server
  | WireGuardTunnel Server
  | TrojanTunnel Server

text \<open>
  The manager reaches every adapter through the interface, and handles a \<open>Test\<close> and
  a \<open>Stop\<close> that fail as well as ones that succeed. What an adapter gets from outside
  the program is the outcome of the SSH adapter's latency probe (a \<open>ping\<close> process,
  then a TCP dial). In the repository no adapter's \<open>Stop\<close> fails, and every \<open>Test\<close>
  but the SSH adapter's fails; so that the manager's handling of a failing \<open>Stop\<close> is
  covered, the outcomes of \<open>Test\<close> and \<open>Stop\<close> of one adapter, the Hysteria one, are
  arguments too. The Hysteria adapter of the repository (\<open>monitor.go\<close>) returns an
  error from \<open>Test\<close> and \<open>nil\<close> from \<open>Stop\<close>: \<open>repository_world\<close> is the world with
  these values.
\<close>

record world =
  ssh_Test :: "Server \<Rightarrow> error + duration"
  hysteria_Test :: "Server \<Rightarrow> error + duration"
  hysteria_Stop :: "Server \<Rightarrow> error option"

definition repository_world :: "(Server \<Rightarrow> error + duration) \<Rightarrow> world" where
  "repository_world probe =
     \<lparr>ssh_Test = probe,
      hysteria_Test = (\<lambda>server. Inl (NotImplemented ''Hysteria test not yet implemented'')),
      hysteria_Stop = (\<lambda>server. None)\<rparr>"

fun Tunnel_Test :: "world \<Rightarrow> Tunnel \<Rightarrow> error + duration" where
  "Tunnel_Test w (SSHTunnel server) = ssh_Test w server"
| "Tunnel_Test w (HysteriaTunnel server) = hysteria_Test w server"
| "Tunnel_Test w (V2RayTunnel server) = Inl (NotImplemented ''V2Ray test not yet implemented'')"
| "Tunnel_Test w (WireGuardTunnel server) = Inl (NotImplemented ''WireGuard test not yet implemented'')"
| "Tunnel_Test w (TrojanTunnel server) = Inl (NotImplemented ''Trojan test not yet implemented'')"

text \<open>
  \<open>Stop\<close> of the SSH, V2Ray, WireGuard and Trojan adapters closes what is open and
  returns \<open>nil\<close>; \<open>Stop\<close> of the Hysteria adapter is the world's. (Each adapter also
  keeps a status record of its own, which the manager never reads.)
\<close>

fun Tunnel_Stop :: "world \<Rightarrow> Tunnel \<Rightarrow> error option" where
  "Tunnel_Stop w (SSHTunnel server) = None"
| "Tunnel_Stop w (HysteriaTunnel server) = hysteria_Stop w server"
| "Tunnel_Stop w (V2RayTunnel server) = None"
| "Tunnel_Stop w (WireGuardTunnel server) = None"
| "Tunnel_Stop w (TrojanTunnel server) = None"

text \<open>
  The manager. \<open>mu\<close> is the manager's \<open>sync.RWMutex\<close>, reduced to whether its write lock
  is held: the lock is not reentrant, so \<open>Lock\<close> on a held lock never returns. \<open>cancel\<close>
  is \<open>None\<close> while the cancel function is \<open>nil\<close>, and otherwise tells whether the context
  has been cancelled. \<open>started\<close> lists, newest first, the tunnels for which \<open>StartTunnel\<close>
  has spawned the worker that runs the adapter's \<open>Start\<close>.
\<close>

record TunnelManager =
  config :: Config
  tunnels :: "(string, Tunnel) gomap"
  status :: "(string, TunnelStatus) gomap"
  mu :: bool
  cancel :: "bool option"
  started :: "string list"

definition NewTunnelManager :: "Config \<Rightarrow> TunnelManager" where
  "NewTunnelManager cfg =
     \<lparr>config = cfg, tunnels = [], status = [], mu = False, cancel = None, started = []\<rparr>"

definition createTunnel :: "Server \<Rightarrow> error + Tunnel" where
  "createTunnel server =
     (if Transport server = TransportSSH then Inr (SSHTunnel server)
      else if Transport server = TransportHysteria then Inr (HysteriaTunnel server)
      else if Transport server = TransportV2Ray \<or> Transport server = TransportVMess
              \<or> Transport server = TransportVLESS then Inr (V2RayTunnel server)
      else if Transport server = TransportWireGuard then Inr (WireGuardTunnel server)
      else if Transport server = TransportTrojan then Inr (TrojanTunnel server)
      else Inl (UnsupportedTransport (Transport server)))"

text \<open>
  A method that takes the lock returns \<open>None\<close> when it blocks forever, and otherwise
  \<open>Some (err, tm')\<close> with the returned error (\<open>None\<close> for \<open>nil\<close>) and the manager after
  the deferred \<open>Unlock\<close>.
\<close>

type_synonym 'a returns = "('a \<times> TunnelManager) option"

definition new_status :: "string \<Rightarrow> TunnelStatus" where
  "new_status name =
     \<lparr>ServerName = name, Status = ''disconnected'', StartTime = 0, LastError = [],
      BytesSent = 0, BytesRecv = 0, Latency = 0\<rparr>"

text \<open>
  \<open>StartTunnel\<close>: lock, look the tunnel up, write \<open>connecting\<close> and the start time
  through the status pointer, spawn the worker, return \<open>nil\<close>. A missing status entry
  is a nil pointer.
\<close>

definition StartTunnel :: "time \<Rightarrow> string \<Rightarrow> TunnelManager \<Rightarrow> (error option) returns" where
  "StartTunnel now serverName tm =
     (if mu tm then None
      else case map_of (tunnels tm) serverName of
        None \<Rightarrow> Some (Some (TunnelNotFound serverName), tm)
      | Some tunnel \<Rightarrow>
          (case map_of (status tm) serverName of
            None \<Rightarrow> Some (Some NilPointerPanic, tm)
          | Some st \<Rightarrow>
              Some (None,
                tm\<lparr>status := AList.update serverName
                       (st\<lparr>Status := ''connecting'', StartTime := now\<rparr>) (status tm),
                   started := serverName # started tm\<rparr>)))"

text \<open>The loop of \<open>StopAllTunnels\<close> and \<open>Stop\<close>, over the visiting order of \<open>tm.tunnels\<close>.\<close>

fun stop_loop :: "world \<Rightarrow> string list \<Rightarrow> error list \<Rightarrow> TunnelManager \<Rightarrow> error list \<times> TunnelManager" where
  "stop_loop w [] errors tm = (errors, tm)"
| "stop_loop w (name # rest) errors tm =
     (case map_of (tunnels tm) name of
        None \<Rightarrow> stop_loop w rest errors tm
      | Some tunnel \<Rightarrow>
          stop_loop w rest
            (case Tunnel_Stop w tunnel of
               Some err \<Rightarrow> errors @ [FailedToStop name err]
             | None \<Rightarrow> errors)
            (case map_of (status tm) name of
               Some st \<Rightarrow> tm\<lparr>status := AList.update name (st\<lparr>Status := ''disconnected''\<rparr>) (status tm)\<rparr>
             | None \<Rightarrow> tm))"

definition stop_result :: "error list \<Rightarrow> error option" where
  "stop_result errors = (if length errors > 0 then Some (ErrorsStopping errors) else None)"

definition StopAllTunnels :: "world \<Rightarrow> string list \<Rightarrow> TunnelManager \<Rightarrow> (error option) returns" where
  "StopAllTunnels w order tm =
     (if mu tm then None
      else case stop_loop w order [] tm of
        (errors, tm') \<Rightarrow> Some (stop_result errors, tm'))"

definition Stop :: "world \<Rightarrow> string list \<Rightarrow> TunnelManager \<Rightarrow> (error option) returns" where
  "Stop w order tm =
     (if mu tm then None
      else case stop_loop w order []
                  (tm\<lparr>cancel := (case cancel tm of None \<Rightarrow> None | Some c \<Rightarrow> Some True)\<rparr>) of
        (errors, tm') \<Rightarrow> Some (stop_result errors, tm'))"

text \<open>
  \<open>startBestLatency\<close>: the scan keeps the best name and latency so far, starting from
  the empty name and one hour; a probe that fails is skipped; only a strictly smaller
  latency replaces the best. An empty best name afterwards is the error. The call of
  \<open>StartTunnel\<close> at the end takes the lock again.
\<close>

fun best_scan :: "world \<Rightarrow> (string, Tunnel) gomap \<Rightarrow> string list \<Rightarrow> string \<times> duration \<Rightarrow> string \<times> duration" where
  "best_scan w ts [] best = best"
| "best_scan w ts (name # rest) (bestServer, bestLatency) =
     (case map_of ts name of
        None \<Rightarrow> best_scan w ts rest (bestServer, bestLatency)
      | Some tunnel \<Rightarrow>
          (case Tunnel_Test w tunnel of
             Inl err \<Rightarrow> best_scan w ts rest (bestServer, bestLatency)
           | Inr latency \<Rightarrow>
               if latency < bestLatency then best_scan w ts rest (name, latency)
               else best_scan w ts rest (bestServer, bestLatency)))"

definition startBestLatency :: "world \<Rightarrow> string list \<Rightarrow> time \<Rightarrow> TunnelManager \<Rightarrow> (error option) returns" where
  "startBestLatency w order now tm =
     (case best_scan w (tunnels tm) order ([], Hour) of
        (bestServer, bestLatency) \<Rightarrow>
          if bestServer = [] then Some (Some NoAvailableServers, tm)
          else StartTunnel now bestServer tm)"

definition startRandom :: "string list \<Rightarrow> time \<Rightarrow> TunnelManager \<Rightarrow> (error option) returns" where
  "startRandom order now tm =
     (case order of
        name # rest \<Rightarrow> StartTunnel now name tm
      | [] \<Rightarrow> Some (Some NoAvailableServers, tm))"

definition startLeastLoad :: "world \<Rightarrow> string list \<Rightarrow> time \<Rightarrow> TunnelManager \<Rightarrow> (error option) returns" where
  "startLeastLoad w order now tm = startBestLatency w order now tm"

definition startAutoSelected :: "world \<Rightarrow> string list \<Rightarrow> time \<Rightarrow> TunnelManager \<Rightarrow> (error option) returns" where
  "startAutoSelected w order now tm =
     (if SelectionMethod (config tm) = ''latency'' then startBestLatency w order now tm
      else if SelectionMethod (config tm) = ''random'' then startRandom order now tm
      else if SelectionMethod (config tm) = ''load'' then startLeastLoad w order now tm
      else startBestLatency w order now tm)"

text \<open>
  \<open>Start\<close>: under the lock, one tunnel and one \<open>disconnected\<close> status per enabled server
  whose adapter can be created (a creation error is logged and the server skipped), then
  the selection policy when auto-select is on. The deferred \<open>Unlock\<close> runs when \<open>Start\<close>
  returns, so the policy runs with the lock held.
\<close>

fun register_loop :: "Server list \<Rightarrow> TunnelManager \<Rightarrow> TunnelManager" where
  "register_loop [] tm = tm"
| "register_loop (server # rest) tm =
     (if \<not> Enabled server then register_loop rest tm
      else case createTunnel server of
        Inl err \<Rightarrow> register_loop rest tm
      | Inr tunnel \<Rightarrow>
          register_loop rest
            (tm\<lparr>tunnels := AList.update (Name server) tunnel (tunnels tm),
                status := AList.update (Name server) (new_status (Name server)) (status tm)\<rparr>))"

definition unlock :: "'a returns \<Rightarrow> 'a returns" where
  "unlock r = map_option (\<lambda>(x, tm). (x, tm\<lparr>mu := False\<rparr>)) r"

definition Start :: "world \<Rightarrow> string list \<Rightarrow> time \<Rightarrow> TunnelManager \<Rightarrow> (error option) returns" where
  "Start w order now tm =
     (if mu tm then None
      else let tm1 = register_loop (Servers (config tm)) (tm\<lparr>mu := True, cancel := Some False\<rparr>)
           in if AutoSelect (config tm1) then unlock (startAutoSelected w order now tm1)
              else Some (None, tm1\<lparr>mu := False\<rparr>))"

section \<open>Package mesh: operations\<close>

text \<open>
  \<open>nextIP\<close> copies the address and adds one to its last byte, carrying into the byte
  before while the byte just incremented wrapped to zero. The second argument of the
  loop is the Go index \<open>i\<close> plus one, so that \<open>0\<close> is the exit \<open>i < 0\<close>.
\<close>

fun nextIP_loop :: "byte list \<Rightarrow> nat \<Rightarrow> byte list" where
  "nextIP_loop next 0 = next"
| "nextIP_loop next (Suc i) =
     (let next' = next[i := next ! i + 1]
      in if next' ! i > 0 then next' else nextIP_loop next' i)"

definition nextIP :: "byte list \<Rightarrow> byte list" where
  "nextIP ip = nextIP_loop ip (length ip)"

text \<open>
  \<open>IP.String\<close> for the four-byte form of an address, which is what \<open>net.ParseCIDR\<close>
  returns as the network address of an IPv4 block: the bytes in decimal (\<open>ubtoa\<close>: one
  to three digits, no leading zero), joined by dots. Mesh blocks are IPv4 in every use
  of the source; the text form of other lengths is not modelled, and \<open>IP_String\<close>
  renders them the same way.
\<close>

definition digit :: "nat \<Rightarrow> char" where
  "digit n = char_of (48 + n)"

definition ubtoa :: "byte \<Rightarrow> string" where
  "ubtoa b =
     (let n = unat b
      in if n < 10 then [digit n]
         else if n < 100 then [digit (n div 10), digit (n mod 10)]
         else [digit (n div 100), digit (n div 10 mod 10), digit (n mod 10)])"

fun IP_String :: "byte list \<Rightarrow> string" where
  "IP_String [] = []"
| "IP_String [b] = ubtoa b"
| "IP_String (b # bs) = ubtoa b @ CHR ''.'' # IP_String bs"

text \<open>
  \<open>isIPUsed\<close> returns at the first node that has the address. It ranges over the map;
  its result does not depend on the visiting order, so it is run over the map as stored.
\<close>

fun isIPUsed_loop :: "(ref \<Rightarrow> MeshNode) \<Rightarrow> (string, ref) gomap \<Rightarrow> string \<Rightarrow> bool" where
  "isIPUsed_loop st [] ip = False"
| "isIPUsed_loop st ((k, r) # rest) ip =
     (if MeshIP (st r) = ip then True else isIPUsed_loop st rest ip)"

definition isIPUsed :: "MeshNetwork \<Rightarrow> string \<Rightarrow> bool" where
  "isIPUsed mn ip = isIPUsed_loop (store mn) (nodes mn) ip"

text \<open>
  \<open>assignMeshIP\<close>: parse the block, then scan from the address after the network
  address until one is unused. The loop has no other exit, so the scan is a partial
  function: \<open>None\<close> is the scan that never ends. \<open>net.ParseCIDR\<close> is library code and
  is an argument of the model.
\<close>

partial_function (option) assign_scan :: "MeshNetwork \<Rightarrow> byte list \<Rightarrow> string option" where
  "assign_scan mn ip =
     (if \<not> isIPUsed mn (IP_String (nextIP ip)) then Some (IP_String (nextIP ip))
      else assign_scan mn (nextIP ip))"

definition assignMeshIP :: "(string \<Rightarrow> error + IPNet) \<Rightarrow> MeshNetwork \<Rightarrow> (error + string) option" where
  "assignMeshIP ParseCIDR mn =
     (case ParseCIDR (NetworkCIDR (MeshNetwork.config mn)) of
        Inl err \<Rightarrow> Some (Inl err)
      | Inr network \<Rightarrow> map_option Inr (assign_scan mn (IP network)))"

text \<open>The stubs of the source: both return \<open>nil\<close>, and \<open>parsePort\<close> returns 22.\<close>

definition probeNode :: "MeshNode \<Rightarrow> error option" where
  "probeNode node = None"

definition setupNodeRouting :: "MeshNode \<Rightarrow> error option" where
  "setupNodeRouting node = None"

definition parsePort :: "string \<Rightarrow> int" where
  "parsePort portStr = 22"

definition NewMeshNetwork :: "MeshConfig \<Rightarrow> MeshNetwork" where
  "NewMeshNetwork cfg =
     \<lparr>store = (\<lambda>r. \<lparr>ID = [], Name = [], PublicIP = [], PrivateIP = [], MeshIP = [], Port = 0,
                     PublicKey = [], PrivateKey = [], Status = [], LastSeen = 0, Protocols = [],
                     LoadScore = 0, Latency = 0, Tags = [], Region = [], Capabilities = []\<rparr>),
      next_ref = 0, nodes = [], localNode = None, config = cfg\<rparr>"

text \<open>Allocating a node: it gets the next address, and the store holds it there.\<close>

definition new_node :: "MeshNode \<Rightarrow> MeshNetwork \<Rightarrow> ref \<times> MeshNetwork" where
  "new_node node mn =
     (next_ref mn, mn\<lparr>store := (store mn)(next_ref mn := node), next_ref := Suc (next_ref mn)\<rparr>)"

text \<open>
  \<open>AddServer\<close>. \<open>nodeID\<close> is what \<open>generateNodeID\<close> returns (a name made from the clock) and
  \<open>now\<close> the instant \<open>time.Now\<close> returns. The node is built as \<open>connecting\<close>, gets its
  mesh address, is probed, and is stored in the map under its id. The result is the
  pointer to the node, or the error when no address could be assigned; \<open>None\<close> when the
  address scan never ends.
\<close>

definition AddServer ::
  "(string \<Rightarrow> error + IPNet) \<Rightarrow> string \<Rightarrow> time \<Rightarrow> Server \<Rightarrow> MeshNetwork
     \<Rightarrow> ((error + ref) \<times> MeshNetwork) option" where
  "AddServer ParseCIDR nodeID now serverConfig mn =
     (case assignMeshIP ParseCIDR mn of
        None \<Rightarrow> None
      | Some (Inl err) \<Rightarrow> Some (Inl (FailedToAssignMeshIP err), mn)
      | Some (Inr meshIP) \<Rightarrow>
          (let node = \<lparr>ID = nodeID, Name = Server.Name serverConfig, PublicIP = Host serverConfig,
                       PrivateIP = [], MeshIP = meshIP, Port = parsePort (Server.Port serverConfig),
                       PublicKey = [], PrivateKey = [], Status = ''connecting'', LastSeen = 0,
                       Protocols = [Transport serverConfig], LoadScore = 0, Latency = 0,
                       Tags = Server.Tags serverConfig, Region = Server.Region serverConfig,
                       Capabilities = []\<rparr>;
               node' = (case probeNode node of
                          Some err \<Rightarrow> node\<lparr>MeshNode.Status := ''offline''\<rparr>
                        | None \<Rightarrow> node\<lparr>MeshNode.Status := ''online'', LastSeen := now\<rparr>)
           in case new_node node' mn of
                (r, mn') \<Rightarrow> Some (Inr r, mn'\<lparr>nodes := AList.update nodeID r (nodes mn')\<rparr>)))"

text \<open>
  \<open>createLocalNode\<close> and \<open>Initialize\<close>: the local node takes the first address the scan
  finds and is stored as \<open>localNode\<close> and in the map. (\<open>getLocalIP\<close> and
  \<open>generateWireGuardKeys\<close> are stubs that return fixed strings; the background workers
  that \<open>Initialize\<close> starts are separate threads and not part of this step.)
\<close>

definition createLocalNode ::
  "(string \<Rightarrow> error + IPNet) \<Rightarrow> string \<Rightarrow> time \<Rightarrow> MeshNetwork \<Rightarrow> (error + MeshNode) option" where
  "createLocalNode ParseCIDR nodeID now mn =
     (case assignMeshIP ParseCIDR mn of
        None \<Rightarrow> None
      | Some (Inl err) \<Rightarrow> Some (Inl err)
      | Some (Inr meshIP) \<Rightarrow>
          Some (Inr \<lparr>ID = nodeID, Name = LocalNodeName (MeshNetwork.config mn), PublicIP = ''127.0.0.1'',
                     PrivateIP = [], MeshIP = meshIP, Port = 0, PublicKey = ''public-key'',
                     PrivateKey = ''private-key'', Status = ''online'', LastSeen = now,
                     Protocols = [''ssh'', ''wireguard''], LoadScore = 0, Latency = 0,
                     Tags = MeshConfig.Tags (MeshNetwork.config mn), Region = [],
                     Capabilities = [(''coordinator'', True), (''routing'', True),
                                     (''loadbalancer'', True)]\<rparr>))"

definition Initialize ::
  "(string \<Rightarrow> error + IPNet) \<Rightarrow> string \<Rightarrow> time \<Rightarrow> MeshNetwork \<Rightarrow> (error option \<times> MeshNetwork) option" where
  "Initialize ParseCIDR nodeID now mn =
     (case createLocalNode ParseCIDR nodeID now mn of
        None \<Rightarrow> None
      | Some (Inl err) \<Rightarrow> Some (Some (FailedToCreateLocalNode err), mn)
      | Some (Inr node) \<Rightarrow>
          (case new_node node mn of
             (r, mn') \<Rightarrow>
               Some (None, mn'\<lparr>localNode := Some r, nodes := AList.update (ID node) r (nodes mn')\<rparr>)))"

text \<open>
  \<open>calculateNodeScore\<close>, operation by operation in \<open>float64\<close>, each rounded on
  its own. \<open>Milliseconds\<close> is the integer division of the nanoseconds by one million,
  truncated towards zero as Go's division is; the sum with one is converted to
  \<open>float64\<close>. The constants \<open>1000\<close>, \<open>1\<close>, \<open>100\<close> and \<open>50\<close> are values of the
  format, and \<open>0.4\<close> and \<open>0.3\<close> stand for the values nearest to them. For a latency
  of minus one millisecond the divisor is zero and the quotient is the positive
  infinity. (Go allows a compiler to fuse a product and the sum that follows it into
  one rounding; what is proved of \<open>GetBestNode\<close> for every mesh uses only that the
  scores are values of \<open>float64\<close> compared by \<open>>\<close>.)
\<close>

definition Milliseconds :: "duration \<Rightarrow> int" where
  "Milliseconds d = sgn d * (\<bar>d\<bar> div 1000000)"

definition calculateNodeScore :: "MeshNode \<Rightarrow> string \<Rightarrow> float64" where
  "calculateNodeScore node criteria =
     (let score = Num 0;
          latencyScore = fdiv (Num 1000) (round64 (of_int (Milliseconds (MeshNode.Latency node) + 1)));
          score = fadd score (fmul latencyScore (round64 (4 / 10)));
          loadScore = fsub (Num 1) (Num (LoadScore node));
          score = fadd score (fmul loadScore (round64 (3 / 10)));
          score = (if MeshNode.Status node = ''online'' then fadd score (Num 100) else score);
          score = (if criteria \<noteq> [] \<and> MeshNode.Region node = criteria
                   then fadd score (Num 50) else score)
      in score)"

text \<open>
  \<open>GetBestNode\<close>: the loop over the map keeps the best pointer and score so far,
  starting from \<open>nil\<close> and zero; a node that is not online, or is the local node, is
  skipped; a node replaces the best when there is none yet or its score is strictly
  higher.
\<close>

fun best_node_scan :: "MeshNetwork \<Rightarrow> string \<Rightarrow> string list \<Rightarrow> ref option \<times> float64 \<Rightarrow> ref option \<times> float64" where
  "best_node_scan mn criteria [] best = best"
| "best_node_scan mn criteria (k # rest) (bestNode, bestScore) =
     (case map_of (nodes mn) k of
        None \<Rightarrow> best_node_scan mn criteria rest (bestNode, bestScore)
      | Some r \<Rightarrow>
          if MeshNode.Status (store mn r) \<noteq> ''online'' \<or> Some r = localNode mn
          then best_node_scan mn criteria rest (bestNode, bestScore)
          else if bestNode = None \<or> fgt (calculateNodeScore (store mn r) criteria) bestScore
          then best_node_scan mn criteria rest (Some r, calculateNodeScore (store mn r) criteria)
          else best_node_scan mn criteria rest (bestNode, bestScore))"

definition GetBestNode :: "MeshNetwork \<Rightarrow> string list \<Rightarrow> string \<Rightarrow> error + ref" where
  "GetBestNode mn order criteria =
     (case best_node_scan mn criteria order (None, Num 0) of
        (None, bestScore) \<Rightarrow> Inl NoAvailableNodes
      | (Some r, bestScore) \<Rightarrow> Inr r)"

text \<open>
  \<open>performHealthCheck\<close>. \<open>pingNode\<close> stands for the probe of a node (the stub of the
  source measures an empty interval and never fails; the loop handles both outcomes)
  and \<open>now\<close> for the clock of the tick.
\<close>

fun health_loop :: "(ref \<Rightarrow> error + duration) \<Rightarrow> time \<Rightarrow> string list \<Rightarrow> MeshNetwork \<Rightarrow> MeshNetwork" where
  "health_loop pingNode now [] mn = mn"
| "health_loop pingNode now (k # rest) mn =
     (case map_of (nodes mn) k of
        None \<Rightarrow> health_loop pingNode now rest mn
      | Some r \<Rightarrow>
          if Some r = localNode mn then health_loop pingNode now rest mn
          else (case pingNode r of
                  Inl err \<Rightarrow>
                    if MeshNode.Status (store mn r) = ''online''
                    then health_loop pingNode now rest
                           (mn\<lparr>store := (store mn)(r := (store mn r)\<lparr>MeshNode.Status := ''offline''\<rparr>)\<rparr>)
                    else health_loop pingNode now rest mn
                | Inr latency \<Rightarrow>
                    health_loop pingNode now rest
                      (mn\<lparr>store := (store mn)(r :=
                          (if MeshNode.Status (store mn r) \<noteq> ''online''
                           then (store mn r)\<lparr>MeshNode.Status := ''online''\<rparr> else store mn r)
                          \<lparr>LastSeen := now, MeshNode.Latency := latency\<rparr>)\<rparr>)))"

definition performHealthCheck :: "(ref \<Rightarrow> error + duration) \<Rightarrow> time \<Rightarrow> string list \<Rightarrow> MeshNetwork \<Rightarrow> MeshNetwork" where
  "performHealthCheck pingNode now order mn = health_loop pingNode now order mn"

text \<open>
  \<open>LoadBalance\<close> and its policies. The healthy nodes are collected in the visiting
  order of the map. A policy returns a pointer that may be \<open>nil\<close> (\<open>None\<close>), and
  \<open>LoadBalance\<close> returns it with a \<open>nil\<close> error. \<open>second\<close> is \<open>time.Now().Second()\<close>.
\<close>

fun getHealthyNodes_loop :: "MeshNetwork \<Rightarrow> string list \<Rightarrow> ref list \<Rightarrow> ref list" where
  "getHealthyNodes_loop mn [] acc = acc"
| "getHealthyNodes_loop mn (k # rest) acc =
     (case map_of (nodes mn) k of
        None \<Rightarrow> getHealthyNodes_loop mn rest acc
      | Some r \<Rightarrow>
          if MeshNode.Status (store mn r) = ''online'' \<and> Some r \<noteq> localNode mn
          then getHealthyNodes_loop mn rest (acc @ [r])
          else getHealthyNodes_loop mn rest acc)"

definition getHealthyNodes :: "MeshNetwork \<Rightarrow> string list \<Rightarrow> ref list" where
  "getHealthyNodes mn order = getHealthyNodes_loop mn order []"

definition roundRobinSelect :: "MeshNetwork \<Rightarrow> nat \<Rightarrow> ref list \<Rightarrow> ref option" where
  "roundRobinSelect mn second ns =
     (if length ns = 0 then None else Some (ns ! (second mod length ns)))"

fun leastConnections_loop :: "MeshNetwork \<Rightarrow> ref list \<Rightarrow> ref option \<times> real \<Rightarrow> ref option \<times> real" where
  "leastConnections_loop mn [] best = best"
| "leastConnections_loop mn (r # rest) (bestNode, bestLoad) =
     (if LoadScore (store mn r) < bestLoad
      then leastConnections_loop mn rest (Some r, LoadScore (store mn r))
      else leastConnections_loop mn rest (bestNode, bestLoad))"

definition leastConnectionsSelect :: "MeshNetwork \<Rightarrow> ref list \<Rightarrow> ref option" where
  "leastConnectionsSelect mn ns = fst (leastConnections_loop mn ns (None, 1))"

fun latencyBased_loop :: "MeshNetwork \<Rightarrow> ref list \<Rightarrow> ref option \<times> duration \<Rightarrow> ref option \<times> duration" where
  "latencyBased_loop mn [] best = best"
| "latencyBased_loop mn (r # rest) (bestNode, bestLatency) =
     (if MeshNode.Latency (store mn r) < bestLatency
      then latencyBased_loop mn rest (Some r, MeshNode.Latency (store mn r))
      else latencyBased_loop mn rest (bestNode, bestLatency))"

definition latencyBasedSelect :: "MeshNetwork \<Rightarrow> ref list \<Rightarrow> ref option" where
  "latencyBasedSelect mn ns = fst (latencyBased_loop mn ns (None, Hour))"

definition LoadBalance :: "MeshNetwork \<Rightarrow> string list \<Rightarrow> nat \<Rightarrow> string \<Rightarrow> error + ref option" where
  "LoadBalance mn order second target =
     (let ns = getHealthyNodes mn order
      in if length ns = 0 then Inl NoHealthyNodes
         else if LoadBalancing (MeshNetwork.config mn) = ''round_robin''
           then Inr (roundRobinSelect mn second ns)
         else if LoadBalancing (MeshNetwork.config mn) = ''least_connections''
           then Inr (leastConnectionsSelect mn ns)
         else if LoadBalancing (MeshNetwork.config mn) = ''latency''
           then Inr (latencyBasedSelect mn ns)
         else Inr (latencyBasedSelect mn ns))"

section \<open>Package config: encryption of the configuration file\<close>








definition isEncrypted :: "string \<Rightarrow> bool" where
  "isEncrypted data \<longleftrightarrow> take 4 data = ''ENC:''"



section \<open>Notions used to state the properties, and example states\<close>

text \<open>
  The errors a stop loop aggregates: one \<open>FailedToStop\<close> per tunnel whose adapter's
  \<open>Stop\<close> returned an error, in visiting order.
\<close>

definition stop_failures :: "world \<Rightarrow> (string, Tunnel) gomap \<Rightarrow> string list \<Rightarrow> error list" where
  "stop_failures w ts order =
     concat (map (\<lambda>name. case map_of ts name of
                    None \<Rightarrow> []
                  | Some tunnel \<Rightarrow>
                      (case Tunnel_Stop w tunnel of
                         Some err \<Rightarrow> [FailedToStop name err]
                       | None \<Rightarrow> [])) order)"

definition a_server :: "string \<Rightarrow> string \<Rightarrow> string \<Rightarrow> Server" where
  "a_server name host transport =
     \<lparr>Name = name, Host = host, Port = ''22'', Transport = transport, Enabled = True,
      Region = [], Tags = []\<rparr>"

text \<open>A manager whose only tunnel, \<open>a\<close>, is connected since instant 5.\<close>

definition tm_connected :: TunnelManager where
  "tm_connected =
     \<lparr>config = \<lparr>Servers = [a_server ''a'' ''h1'' ''ssh''], AutoSelect = False,
                SelectionMethod = ''latency''\<rparr>,
      tunnels = [(''a'', SSHTunnel (a_server ''a'' ''h1'' ''ssh''))],
      status = [(''a'', (new_status ''a'')\<lparr>Status := ''connected'', StartTime := 5\<rparr>)],
      mu = False, cancel = Some False, started = []\<rparr>"

text \<open>
  A manager with a connecting SSH tunnel \<open>a\<close> and a connected Hysteria tunnel \<open>h\<close>, and
  a world, not the repository's, in which the SSH probe fails and stopping the Hysteria
  adapter fails.
\<close>

definition tm_mixed :: TunnelManager where
  "tm_mixed =
     \<lparr>config = \<lparr>Servers = [a_server ''a'' ''h1'' ''ssh'', a_server ''h'' ''h2'' ''hysteria''],
                AutoSelect = False, SelectionMethod = ''latency''\<rparr>,
      tunnels = [(''a'', SSHTunnel (a_server ''a'' ''h1'' ''ssh'')),
                 (''h'', HysteriaTunnel (a_server ''h'' ''h2'' ''hysteria''))],
      status = [(''a'', (new_status ''a'')\<lparr>Status := ''connecting'', StartTime := 5\<rparr>),
                (''h'', (new_status ''h'')\<lparr>Status := ''connected'', StartTime := 3\<rparr>)],
      mu = False, cancel = Some False, started = [''a'', ''h'']\<rparr>"

definition w_stop_fails :: world where
  "w_stop_fails =
     \<lparr>ssh_Test = (\<lambda>server. Inl (AdapterError ''ping failed'')),
      hysteria_Test = (\<lambda>server. Inl (AdapterError ''unreachable'')),
      hysteria_Stop = (\<lambda>server. Some (AdapterError ''close failed''))\<rparr>"

text \<open>The transport kinds for which \<open>createTunnel\<close> has a case.\<close>

definition supported :: "string \<Rightarrow> bool" where
  "supported transport \<longleftrightarrow>
     transport \<in> {TransportSSH, TransportHysteria, TransportV2Ray, TransportVMess,
                   TransportVLESS, TransportWireGuard, TransportTrojan}"

text \<open>
  What a call of \<open>Start\<close> leaves behind, apart from the configuration it was given:
  the returned error and the manager's maps, spawned workers, lock and context.
\<close>

definition outcome :: "(error option) returns \<Rightarrow>
    (error option \<times> (string, Tunnel) gomap \<times> (string, TunnelStatus) gomap \<times> string list \<times> bool \<times> bool option) option" where
  "outcome r = map_option (\<lambda>(e, tm). (e, tunnels tm, status tm, started tm, mu tm, cancel tm)) r"

text \<open>The manager with every copy of one server taken out of its configuration.\<close>

definition without :: "Server \<Rightarrow> TunnelManager \<Rightarrow> TunnelManager" where
  "without server tm =
     tm\<lparr>config := (config tm)\<lparr>Servers := filter (\<lambda>s. s \<noteq> server) (Servers (config tm))\<rparr>\<rparr>"

text \<open>A fresh manager for an SSH server, a server of an unknown kind and a Trojan server.\<close>

definition tm_three_kinds :: TunnelManager where
  "tm_three_kinds =
     NewTunnelManager
       \<lparr>Servers = [a_server ''a'' ''h1'' ''ssh'', a_server ''x'' ''h2'' ''openvpn'',
                   a_server ''b'' ''h3'' ''trojan''],
        AutoSelect = False, SelectionMethod = ''latency''\<rparr>"

text \<open>The same configuration with auto-select on, as in the repository's \<open>config.yaml\<close>.\<close>

definition tm_three_kinds_auto :: TunnelManager where
  "tm_three_kinds_auto =
     NewTunnelManager
       \<lparr>Servers = [a_server ''a'' ''h1'' ''ssh'', a_server ''x'' ''h2'' ''openvpn'',
                   a_server ''b'' ''h3'' ''trojan''],
        AutoSelect = True, SelectionMethod = ''latency''\<rparr>"

text \<open>
  The latencies a scan of the tunnels measures, in visiting order: one entry per tunnel
  whose \<open>Test\<close> succeeds, none for a tunnel whose \<open>Test\<close> fails.
\<close>

definition measured :: "world \<Rightarrow> (string, Tunnel) gomap \<Rightarrow> string list \<Rightarrow> (string \<times> duration) list" where
  "measured w ts order =
     concat (map (\<lambda>name. case map_of ts name of
                    None \<Rightarrow> []
                  | Some tunnel \<Rightarrow>
                      (case Tunnel_Test w tunnel of
                         Inl err \<Rightarrow> []
                       | Inr latency \<Rightarrow> [(name, latency)])) order)"

text \<open>
  Three SSH tunnels \<open>a\<close>, \<open>b\<close>, \<open>c\<close> on hosts that answer in 80 ms, 25 ms and 45 ms,
  the other adapters being the repository's; \<open>tm_three\<close> is the manager once the three
  are registered.
\<close>

definition w_three :: world where
  "w_three =
     \<lparr>ssh_Test = (\<lambda>server.
         if Host server = ''h1'' then Inr (80 * Millisecond)
         else if Host server = ''h2'' then Inr (25 * Millisecond)
         else if Host server = ''h3'' then Inr (45 * Millisecond)
         else Inl (AdapterError ''ping failed'')),
      hysteria_Test = (\<lambda>server. Inl (NotImplemented ''Hysteria test not yet implemented'')),
      hysteria_Stop = (\<lambda>server. None)\<rparr>"

definition cfg_three :: Config where
  "cfg_three =
     \<lparr>Servers = [a_server ''a'' ''h1'' ''ssh'', a_server ''b'' ''h2'' ''ssh'',
                 a_server ''c'' ''h3'' ''ssh''],
      AutoSelect = True, SelectionMethod = ''latency''\<rparr>"

definition tm_three :: TunnelManager where
  "tm_three =
     \<lparr>config = cfg_three,
      tunnels = [(''a'', SSHTunnel (a_server ''a'' ''h1'' ''ssh'')),
                 (''b'', SSHTunnel (a_server ''b'' ''h2'' ''ssh'')),
                 (''c'', SSHTunnel (a_server ''c'' ''h3'' ''ssh''))],
      status = [(''a'', new_status ''a''), (''b'', new_status ''b''), (''c'', new_status ''c'')],
      mu = False, cancel = Some False, started = []\<rparr>"

text \<open>Two SSH tunnels, configured in the order \<open>a\<close>, \<open>b\<close>, that both answer in 30 ms.\<close>

definition w_tie :: world where
  "w_tie =
     \<lparr>ssh_Test = (\<lambda>server. Inr (30 * Millisecond)),
      hysteria_Test = (\<lambda>server. Inl (NotImplemented ''Hysteria test not yet implemented'')),
      hysteria_Stop = (\<lambda>server. None)\<rparr>"

definition tm_two :: TunnelManager where
  "tm_two =
     \<lparr>config = \<lparr>Servers = [a_server ''a'' ''h1'' ''ssh'', a_server ''b'' ''h2'' ''ssh''],
                AutoSelect = True, SelectionMethod = ''latency''\<rparr>,
      tunnels = [(''a'', SSHTunnel (a_server ''a'' ''h1'' ''ssh'')),
                 (''b'', SSHTunnel (a_server ''b'' ''h2'' ''ssh''))],
      status = [(''a'', new_status ''a''), (''b'', new_status ''b'')],
      mu = False, cancel = Some False, started = []\<rparr>"

text \<open>
  What one probe makes of a node: a failure turns \<open>online\<close> into \<open>offline\<close> and
  touches nothing else; a success makes the node \<open>online\<close> and stores the instant and
  the measured latency.
\<close>

definition probed :: "error + duration \<Rightarrow> time \<Rightarrow> MeshNode \<Rightarrow> MeshNode" where
  "probed result now node =
     (case result of
        Inl err \<Rightarrow>
          if MeshNode.Status node = ''online'' then node\<lparr>MeshNode.Status := ''offline''\<rparr> else node
      | Inr latency \<Rightarrow>
          (if MeshNode.Status node \<noteq> ''online'' then node\<lparr>MeshNode.Status := ''online''\<rparr> else node)
          \<lparr>LastSeen := now, MeshNode.Latency := latency\<rparr>)"

text \<open>
  The nodes \<open>GetBestNode\<close> and \<open>LoadBalance\<close> choose among: registered, online, and
  not the local node. \<open>score\<close> is the score of the node a pointer refers to.
\<close>

definition eligible :: "MeshNetwork \<Rightarrow> ref \<Rightarrow> bool" where
  "eligible mn r \<longleftrightarrow>
     (\<exists>k. map_of (nodes mn) k = Some r) \<and> MeshNode.Status (store mn r) = ''online''
     \<and> Some r \<noteq> localNode mn"

definition score :: "MeshNetwork \<Rightarrow> string \<Rightarrow> ref \<Rightarrow> float64" where
  "score mn criteria r = calculateNodeScore (store mn r) criteria"

text \<open>
  The score in the words of the specification: the weighted latency and load terms,
  100 for an online node and 50 for a node whose region equals the criteria, computed
  in \<open>float64\<close> in the order of the source. (The specification does not say what
  the normalised latency score is; the source's \<open>1000 / (milliseconds + 1)\<close> is taken.)
\<close>

definition spec_score :: "MeshNode \<Rightarrow> string \<Rightarrow> float64" where
  "spec_score node criteria =
     (let latencyScore = fdiv (Num 1000) (round64 (of_int (Milliseconds (MeshNode.Latency node) + 1)));
          score = fadd (Num 0) (fmul latencyScore (round64 (4 / 10)));
          score = fadd score (fmul (fsub (Num 1) (Num (LoadScore node))) (round64 (3 / 10)));
          score = (if MeshNode.Status node = ''online'' then fadd score (Num 100) else score);
          score = (if MeshNode.Region node = criteria then fadd score (Num 50) else score)
      in score)"

text \<open>
  Example meshes: \<open>a_mesh\<close> stores the given nodes at the addresses 0, 1, 2, ...,
  registers each under its id, and makes the first one the local node.
\<close>

definition a_node :: "string \<Rightarrow> string \<Rightarrow> string \<Rightarrow> string \<Rightarrow> duration \<Rightarrow> real \<Rightarrow> MeshNode" where
  "a_node nodeID meshIP st region latency load =
     \<lparr>ID = nodeID, Name = nodeID, PublicIP = [], PrivateIP = [], MeshIP = meshIP, Port = 22,
      PublicKey = [], PrivateKey = [], Status = st, LastSeen = 0, Protocols = [''ssh''],
      LoadScore = load, Latency = latency, Tags = [], Region = region, Capabilities = []\<rparr>"

definition a_mesh_config :: "string \<Rightarrow> MeshConfig" where
  "a_mesh_config policy =
     \<lparr>NetworkCIDR = ''10.99.0.0/24'', CoordinatorURL = [], LocalNodeName = ''local-node'',
      AutoDiscovery = False, HealthCheckInterval = 30000000000, LoadBalancing = policy,
      FailoverTimeout = 30000000000, Encryption = True, Tags = [], Regions = []\<rparr>"

definition a_mesh :: "MeshNode list \<Rightarrow> string \<Rightarrow> MeshNetwork" where
  "a_mesh ns policy =
     \<lparr>store = (\<lambda>r. if r < length ns then ns ! r else store (NewMeshNetwork (a_mesh_config policy)) r),
      next_ref = length ns,
      nodes = map (\<lambda>r. (ID (ns ! r), r)) [0..<length ns],
      localNode = Some 0,
      config = a_mesh_config policy\<rparr>"

text \<open>
  Two online nodes slower than an hour and loaded to 1 and 1.5; two online nodes that
  score alike; a node without a region and a faster node in region \<open>eu\<close>; an online and
  an offline node, with a probe that fails for the first and a probe that succeeds.
\<close>

definition mesh_slow :: "string \<Rightarrow> MeshNetwork" where
  "mesh_slow policy =
     a_mesh [a_node ''local'' ''10.99.0.1'' ''online'' [] 0 0,
             a_node ''n1'' ''10.99.0.2'' ''online'' [] (2 * Hour) 1,
             a_node ''n2'' ''10.99.0.3'' ''online'' [] Hour (3 / 2)] policy"

definition mesh_pair :: MeshNetwork where
  "mesh_pair =
     a_mesh [a_node ''local'' ''10.99.0.1'' ''online'' [] 0 0,
             a_node ''n1'' ''10.99.0.2'' ''online'' ''eu'' (20 * Millisecond) (1 / 2),
             a_node ''n2'' ''10.99.0.3'' ''online'' ''eu'' (20 * Millisecond) (1 / 2)] ''latency''"

definition mesh_regions :: MeshNetwork where
  "mesh_regions =
     a_mesh [a_node ''local'' ''10.99.0.1'' ''online'' [] 0 0,
             a_node ''n1'' ''10.99.0.2'' ''online'' [] (50 * Millisecond) 0,
             a_node ''n2'' ''10.99.0.3'' ''online'' ''eu'' (10 * Millisecond) 0] ''latency''"

definition mesh_health :: MeshNetwork where
  "mesh_health =
     a_mesh [a_node ''local'' ''10.99.0.1'' ''online'' [] 0 0,
             a_node ''n1'' ''10.99.0.2'' ''online'' [] (7 * Millisecond) 0,
             a_node ''n2'' ''10.99.0.3'' ''offline'' [] (9 * Millisecond) 0] ''latency''"

definition ping_n1_fails :: "ref \<Rightarrow> error + duration" where
  "ping_n1_fails r = (if r = 1 then Inl (AdapterError ''timeout'') else Inr (5 * Millisecond))"

definition ping_succeeds :: "ref \<Rightarrow> error + duration" where
  "ping_succeeds r = Inr (4 * Millisecond)"


text \<open>
  Two online nodes whose load scores differ by \<open>2 ^ - 60\<close>, and an online node whose
  latency is minus one millisecond beside an ordinary one.
\<close>

definition mesh_close :: MeshNetwork where
  "mesh_close =
     a_mesh [a_node ''local'' ''10.99.0.1'' ''online'' [] 0 0,
             a_node ''n1'' ''10.99.0.2'' ''online'' ''eu'' (20 * Millisecond) 0,
             a_node ''n2'' ''10.99.0.3'' ''online'' ''eu'' (20 * Millisecond) (1 / 2 ^ 60)] ''latency''"

definition mesh_negative :: MeshNetwork where
  "mesh_negative =
     a_mesh [a_node ''local'' ''10.99.0.1'' ''online'' [] 0 0,
             a_node ''n1'' ''10.99.0.2'' ''online'' ''eu'' (- Millisecond) 0,
             a_node ''n2'' ''10.99.0.3'' ''online'' ''eu'' 0 0] ''latency''"

text \<open>
  The bonus of the score: a value added when a condition holds.
\<close>

definition bonus :: "bool \<Rightarrow> real \<Rightarrow> float64 \<Rightarrow> float64" where
  "bonus b v s = (if b then fadd s (Num v) else s)"
text \<open>
  The number an address stands for, most significant byte first.
\<close>

definition ip_val :: "byte list \<Rightarrow> nat" where
  "ip_val bs = foldl (\<lambda>a b. a * 256 + unat b) 0 bs"

text \<open>
  The nodes the map points to, and the addresses they hold.
\<close>

definition registered :: "MeshNetwork \<Rightarrow> ref set" where
  "registered mn = snd ` set (nodes mn)"

definition used_addresses :: "MeshNetwork \<Rightarrow> string set" where
  "used_addresses mn = (\<lambda>r. MeshIP (store mn r)) ` registered mn"

text \<open>
  An IPv4 block with \<open>h\<close> host bits: the mask has \<open>32 - h\<close> leading ones and the
  network address is a multiple of \<open>2 ^ h\<close>. Its addresses are the \<open>2 ^ h\<close> from the
  network address on (\<open>in_block\<close>); all but the first (the network address) and the
  last (the broadcast address) are usable, so there are \<open>2 ^ h - 2\<close> usable addresses.
\<close>

definition valid_block :: "IPNet \<Rightarrow> nat \<Rightarrow> bool" where
  "valid_block network h \<longleftrightarrow>
     length (IP network) = 4 \<and> length (Mask network) = 4 \<and> 2 \<le> h \<and> h \<le> 32
     \<and> ip_val (Mask network) = 2 ^ 32 - 2 ^ h \<and> 2 ^ h dvd ip_val (IP network)"

definition in_block :: "IPNet \<Rightarrow> nat \<Rightarrow> string \<Rightarrow> bool" where
  "in_block network h a \<longleftrightarrow>
     (\<exists>ip. a = IP_String ip \<and> length ip = 4 \<and> ip_val (IP network) \<le> ip_val ip
           \<and> ip_val ip < ip_val (IP network) + 2 ^ h)"

definition usable :: "IPNet \<Rightarrow> nat \<Rightarrow> string \<Rightarrow> bool" where
  "usable network h a \<longleftrightarrow>
     (\<exists>ip. a = IP_String ip \<and> length ip = 4 \<and> ip_val (IP network) < ip_val ip
           \<and> ip_val ip < ip_val (IP network) + 2 ^ h - 1)"

text \<open>
  What every step of the registry keeps: the map has at most as many entries as nodes
  were allocated, its pointers are allocated, no two registered nodes have the same
  address, and each address is a step of the scan no further from the network address
  than the number of nodes allocated.
\<close>

definition mesh_inv :: "IPNet \<Rightarrow> MeshNetwork \<Rightarrow> bool" where
  "mesh_inv network mn \<longleftrightarrow>
     length (nodes mn) \<le> next_ref mn
     \<and> (\<forall>r\<in>registered mn. r < next_ref mn)
     \<and> inj_on (\<lambda>r. MeshIP (store mn r)) (registered mn)
     \<and> (\<forall>r\<in>registered mn. \<exists>j. 1 \<le> j \<and> j \<le> next_ref mn
            \<and> MeshIP (store mn r) = IP_String ((nextIP ^^ j) (IP network)))"

text \<open>
  A sequence of \<open>AddServer\<close> calls, each with the id and the instant it draws, run one
  after the other; the results are collected in call order.
\<close>

fun AddServers ::
  "(string \<Rightarrow> error + IPNet) \<Rightarrow> (string \<times> time \<times> Server) list \<Rightarrow> MeshNetwork
     \<Rightarrow> ((error + ref) list \<times> MeshNetwork) option" where
  "AddServers ParseCIDR [] mn = Some ([], mn)"
| "AddServers ParseCIDR ((nodeID, now, serverConfig) # calls) mn =
     (case AddServer ParseCIDR nodeID now serverConfig mn of
        None \<Rightarrow> None
      | Some (res, mn') \<Rightarrow>
          (case AddServers ParseCIDR calls mn' of
             None \<Rightarrow> None
           | Some (results, mn'') \<Rightarrow> Some (res # results, mn'')))"

text \<open>
  Examples: a parser that knows one block; the blocks \<open>10.99.0.0/24\<close> and
  \<open>10.99.0.0/30\<close>; three servers to add; and the meshes after \<open>Initialize\<close> and after
  the three calls.
\<close>

definition parse_only :: "string \<Rightarrow> IPNet \<Rightarrow> string \<Rightarrow> error + IPNet" where
  "parse_only cidr network s = (if s = cidr then Inr network else Inl (ParseCIDRError s))"

definition net24 :: IPNet where
  "net24 = \<lparr>IP = [10, 99, 0, 0], Mask = [255, 255, 255, 0]\<rparr>"

definition net30 :: IPNet where
  "net30 = \<lparr>IP = [10, 99, 0, 0], Mask = [255, 255, 255, 252]\<rparr>"

definition three_calls :: "(string \<times> time \<times> Server) list" where
  "three_calls =
     [(''node-11'', 11, a_server ''s1'' ''192.0.2.1'' ''ssh''),
      (''node-12'', 12, a_server ''s2'' ''192.0.2.2'' ''ssh''),
      (''node-13'', 13, a_server ''s3'' ''192.0.2.3'' ''ssh'')]"

definition mesh30 :: MeshNetwork where
  "mesh30 = NewMeshNetwork ((a_mesh_config ''latency'')\<lparr>NetworkCIDR := ''10.99.0.0/30''\<rparr>)"

definition mesh24_local :: MeshNetwork where
  "mesh24_local =
     snd (the (Initialize (parse_only ''10.99.0.0/24'' net24) ''node-10'' 10
                 (NewMeshNetwork (a_mesh_config ''latency''))))"

definition mesh24_three :: MeshNetwork where
  "mesh24_three = snd (the (AddServers (parse_only ''10.99.0.0/24'' net24) three_calls mesh24_local))"

definition mesh30_local :: MeshNetwork where
  "mesh30_local = snd (the (Initialize (parse_only ''10.99.0.0/30'' net30) ''node-10'' 10 mesh30))"

definition mesh30_three :: MeshNetwork where
  "mesh30_three = snd (the (AddServers (parse_only ''10.99.0.0/30'' net30) three_calls mesh30_local))"


section \<open>Go maps\<close>

lemma keys_map_of: "n \<in> keys m \<longleftrightarrow> map_of m n \<noteq> None"
  by (simp add: keys_def map_of_eq_None_iff)

lemma keys_update: "keys (AList.update k v m) = insert k (keys m)"
  by (simp add: keys_def dom_update)

section \<open>Starting a tunnel that is already connected\<close>

text \<open>
  C3, as the code has it: \<open>StartTunnel\<close> does not look at the current status. For every
  registered tunnel, whatever its status (also \<open>connected\<close>), it writes \<open>connecting\<close>,
  sets the start time to the current instant, spawns the worker that runs the adapter's
  \<open>Start\<close>, and returns \<open>nil\<close>.
\<close>

theorem StartTunnel_restarts:
  assumes "\<not> mu tm"
    and "map_of (tunnels tm) name = Some tunnel"
    and "map_of (status tm) name = Some st"
  shows "\<exists>tm'. StartTunnel now name tm = Some (None, tm')
           \<and> map_of (status tm') name = Some (st\<lparr>Status := ''connecting'', StartTime := now\<rparr>)
           \<and> started tm' = name # started tm"
  using assms by (simp add: StartTunnel_def update_conv')

theorem StartTunnel_restarts_witness:
  "\<exists>tm'. StartTunnel 9 ''a'' tm_connected = Some (None, tm')
      \<and> map_of (status tm') ''a'' =
          Some ((new_status ''a'')\<lparr>Status := ''connecting'', StartTime := 9\<rparr>)
      \<and> started tm' = [''a'']"
  using StartTunnel_restarts [of tm_connected "''a''" "SSHTunnel (a_server ''a'' ''h1'' ''ssh'')"
      "(new_status ''a'')\<lparr>Status := ''connected'', StartTime := 5\<rparr>" 9]
  by (simp add: tm_connected_def)

text \<open>
  C3 as stated (starting a connected tunnel leaves its status record unchanged and does
  not dispatch \<open>Start\<close> again) fails: tunnel \<open>a\<close> of \<open>tm_connected\<close> is connected since
  instant 5, and \<open>StartTunnel\<close> at instant 9 makes it \<open>connecting\<close> with start time 9 and
  spawns a worker for it.
\<close>

theorem StartTunnel_connected_counterexample:
  "map_option Status (map_of (status tm_connected) ''a'') = Some ''connected''
   \<and> StartTunnel 9 ''a'' tm_connected \<noteq> Some (None, tm_connected)
   \<and> StartTunnel 9 ''a'' tm_connected =
       Some (None, tm_connected
         \<lparr>status := [(''a'', (new_status ''a'')\<lparr>Status := ''connecting'', StartTime := 9\<rparr>)],
          started := [''a'']\<rparr>)"
  by (simp add: StartTunnel_def tm_connected_def new_status_def)

section \<open>Stopping tunnels\<close>

lemma stop_loop_errors:
  "fst (stop_loop w order errs tm) = errs @ stop_failures w (tunnels tm) order"
proof (induction order arbitrary: errs tm)
  case Nil
  then show ?case by (simp add: stop_failures_def)
next
  case (Cons name rest)
  show ?case
    by (cases "map_of (tunnels tm) name")
       (auto simp: Cons.IH stop_failures_def split: option.splits)
qed

lemma stop_loop_status:
  "map_of (status (snd (stop_loop w order errs tm))) n =
     (if n \<in> set order \<and> n \<in> keys (tunnels tm)
      then map_option (\<lambda>st. st\<lparr>Status := ''disconnected''\<rparr>) (map_of (status tm) n)
      else map_of (status tm) n)"
proof (induction order arbitrary: errs tm)
  case Nil
  then show ?case by simp
next
  case (Cons name rest)
  show ?case
  proof (cases "map_of (tunnels tm) name")
    case None
    then show ?thesis by (auto simp: Cons.IH keys_map_of)
  next
    case (Some tunnel)
    then show ?thesis
      by (cases "map_of (status tm) name")
         (auto simp: Cons.IH keys_map_of update_conv')
  qed
qed

lemma stop_loop_disconnected:
  assumes "visits (tunnels tm) order" and "keys (status tm) \<subseteq> keys (tunnels tm)"
    and "map_of (status (snd (stop_loop w order errs tm))) n = Some st"
  shows "Status st = ''disconnected''"
proof -
  from assms(3) have "map_of (status tm) n \<noteq> None"
    by (auto simp: stop_loop_status split: if_splits)
  then have "n \<in> keys (status tm)" by (simp add: keys_map_of)
  then have t: "n \<in> keys (tunnels tm)" using assms(2) by blast
  then have o: "n \<in> set order" using assms(1) by (simp add: visits_def)
  show ?thesis using assms(3) t o by (auto simp: stop_loop_status)
qed

lemma stop_loop_keys:
  "keys (status (snd (stop_loop w order errs tm))) = keys (status tm)"
  by (rule set_eqI) (auto simp: keys_map_of stop_loop_status split: if_splits)

text \<open>
  C7. \<open>StopAllTunnels\<close> and \<open>Stop\<close>, called with the lock free on a manager whose status
  entries all belong to registered tunnels, return, and afterwards every status entry
  is \<open>disconnected\<close>, whatever the adapters' \<open>Stop\<close> calls returned. The loop never
  aborts: the returned error aggregates one \<open>FailedToStop\<close> per failing adapter
  (\<open>stop_failures\<close>), and is \<open>nil\<close> exactly when there is none (\<open>stop_result\<close>).
\<close>

theorem stop_always_disconnects:
  assumes "\<not> mu tm" and "visits (tunnels tm) order" and "keys (status tm) \<subseteq> keys (tunnels tm)"
  shows "(\<exists>tm'. StopAllTunnels w order tm
                  = Some (stop_result (stop_failures w (tunnels tm) order), tm')
             \<and> (\<forall>n st. map_of (status tm') n = Some st \<longrightarrow> Status st = ''disconnected'')
             \<and> keys (status tm') = keys (status tm))
       \<and> (\<exists>tm'. Stop w order tm
                  = Some (stop_result (stop_failures w (tunnels tm) order), tm')
             \<and> (\<forall>n st. map_of (status tm') n = Some st \<longrightarrow> Status st = ''disconnected'')
             \<and> keys (status tm') = keys (status tm))"
proof (intro conjI)
  obtain errs tm' where r: "stop_loop w order [] tm = (errs, tm')"
    by (cases "stop_loop w order [] tm")
  have e: "errs = stop_failures w (tunnels tm) order"
    using stop_loop_errors [of w order "[]" tm] r by simp
  have d: "\<forall>n st. map_of (status tm') n = Some st \<longrightarrow> Status st = ''disconnected''"
    using stop_loop_disconnected [OF assms(2,3), of w "[]"] r by auto
  have k: "keys (status tm') = keys (status tm)"
    using stop_loop_keys [of w order "[]" tm] r by simp
  have "StopAllTunnels w order tm = Some (stop_result errs, tm')"
    using assms(1) r by (simp add: StopAllTunnels_def)
  with e d k
  show "\<exists>tm'. StopAllTunnels w order tm
                  = Some (stop_result (stop_failures w (tunnels tm) order), tm')
             \<and> (\<forall>n st. map_of (status tm') n = Some st \<longrightarrow> Status st = ''disconnected'')
             \<and> keys (status tm') = keys (status tm)"
    by blast
next
  let ?tm = "tm\<lparr>cancel := (case cancel tm of None \<Rightarrow> None | Some c \<Rightarrow> Some True)\<rparr>"
  obtain errs tm' where r: "stop_loop w order [] ?tm = (errs, tm')"
    by (cases "stop_loop w order [] ?tm")
  have e: "errs = stop_failures w (tunnels tm) order"
    using stop_loop_errors [of w order "[]" ?tm] r by simp
  have v: "visits (tunnels ?tm) order" "keys (status ?tm) \<subseteq> keys (tunnels ?tm)"
    using assms(2,3) by simp_all
  have d: "\<forall>n st. map_of (status tm') n = Some st \<longrightarrow> Status st = ''disconnected''"
    using stop_loop_disconnected [OF v, of w "[]"] r by auto
  have k: "keys (status tm') = keys (status tm)"
    using stop_loop_keys [of w order "[]" ?tm] r by simp
  have "Stop w order tm = Some (stop_result errs, tm')"
    using assms(1) r by (simp add: Stop_def)
  with e d k
  show "\<exists>tm'. Stop w order tm
                  = Some (stop_result (stop_failures w (tunnels tm) order), tm')
             \<and> (\<forall>n st. map_of (status tm') n = Some st \<longrightarrow> Status st = ''disconnected'')
             \<and> keys (status tm') = keys (status tm)"
    by blast
qed

theorem stop_always_disconnects_witness:
  "\<not> mu tm_mixed \<and> visits (tunnels tm_mixed) [''h'', ''a'']
   \<and> keys (status tm_mixed) \<subseteq> keys (tunnels tm_mixed)
   \<and> stop_result (stop_failures w_stop_fails (tunnels tm_mixed) [''h'', ''a''])
       = Some (ErrorsStopping [FailedToStop ''h'' (AdapterError ''close failed'')])
   \<and> (\<exists>tm'. StopAllTunnels w_stop_fails [''h'', ''a''] tm_mixed
                = Some (stop_result (stop_failures w_stop_fails (tunnels tm_mixed) [''h'', ''a'']), tm')
          \<and> (\<forall>n st. map_of (status tm') n = Some st \<longrightarrow> Status st = ''disconnected'')
          \<and> keys (status tm') = keys (status tm_mixed))
   \<and> (\<exists>tm'. Stop w_stop_fails [''h'', ''a''] tm_mixed
                = Some (stop_result (stop_failures w_stop_fails (tunnels tm_mixed) [''h'', ''a'']), tm')
          \<and> (\<forall>n st. map_of (status tm') n = Some st \<longrightarrow> Status st = ''disconnected'')
          \<and> keys (status tm') = keys (status tm_mixed))"
proof -
  have h1: "\<not> mu tm_mixed" by (simp add: tm_mixed_def)
  have h2: "visits (tunnels tm_mixed) [''h'', ''a'']"
    by (auto simp: tm_mixed_def visits_def keys_def)
  have h3: "keys (status tm_mixed) \<subseteq> keys (tunnels tm_mixed)"
    by (simp add: tm_mixed_def keys_def)
  have h4: "stop_result (stop_failures w_stop_fails (tunnels tm_mixed) [''h'', ''a''])
       = Some (ErrorsStopping [FailedToStop ''h'' (AdapterError ''close failed'')])"
    by (simp add: stop_result_def stop_failures_def tm_mixed_def w_stop_fails_def)
  from stop_always_disconnects [OF h1 h2 h3, of w_stop_fails] h1 h2 h3 h4
  show ?thesis by blast
qed

text \<open>
  With the adapters of the repository no \<open>Stop\<close> fails, so nothing is aggregated, and
  the example worlds of the later sections are worlds of the repository.
\<close>

lemma repository_world_stop_failures: "stop_failures (repository_world probe) ts order = []"
proof -
  have "Tunnel_Stop (repository_world probe) tunnel = None" for tunnel
    by (cases tunnel) (simp_all add: repository_world_def)
  then show ?thesis by (simp add: stop_failures_def split: option.splits)
qed

lemma repository_worlds:
  "w_three = repository_world (ssh_Test w_three)"
  "w_tie = repository_world (ssh_Test w_tie)"
  by (simp_all add: w_three_def w_tie_def repository_world_def)
section \<open>Servers without an adapter\<close>

lemmas transport_defs = TransportSSH_def TransportHysteria_def TransportV2Ray_def
  TransportVMess_def TransportVLESS_def TransportWireGuard_def TransportTrojan_def

lemma createTunnel_unsupported:
  "\<not> supported (Transport s) \<Longrightarrow> createTunnel s = Inl (UnsupportedTransport (Transport s))"
  by (simp add: supported_def createTunnel_def)

lemma createTunnel_supported:
  "supported (Transport s) \<Longrightarrow> \<exists>t. createTunnel s = Inr t"
  by (auto simp: supported_def createTunnel_def)

lemma createTunnel_cases:
  "(\<exists>t. createTunnel s = Inr t \<and> supported (Transport s))
   \<or> (createTunnel s = Inl (UnsupportedTransport (Transport s)) \<and> \<not> supported (Transport s))"
  using createTunnel_unsupported createTunnel_supported by blast

lemma register_loop_frame:
  "config (register_loop servers tm) = config tm \<and> mu (register_loop servers tm) = mu tm
   \<and> cancel (register_loop servers tm) = cancel tm \<and> started (register_loop servers tm) = started tm"
  by (induction servers arbitrary: tm) (auto split: sum.splits)

lemma config_update_after_register:
  "tm\<lparr>tunnels := a, status := b, config := c\<rparr> = tm\<lparr>config := c, tunnels := a, status := b\<rparr>"
  by simp

lemma config_update_after_lock:
  "tm\<lparr>config := c, mu := m, cancel := x\<rparr> = tm\<lparr>mu := m, cancel := x, config := c\<rparr>"
  by simp

lemma register_loop_config:
  "(register_loop servers tm)\<lparr>config := c\<rparr> = register_loop servers (tm\<lparr>config := c\<rparr>)"
  by (induction servers arbitrary: tm) (auto split: sum.splits simp: config_update_after_register)

lemma register_loop_skip:
  assumes "createTunnel x = Inl err"
  shows "register_loop (filter (\<lambda>s. s \<noteq> x) servers) tm = register_loop servers tm"
  using assms by (induction servers arbitrary: tm) (auto split: sum.splits)

lemma register_loop_tunnels_None:
  "map_of (tunnels (register_loop servers tm)) n = None \<longleftrightarrow>
     map_of (tunnels tm) n = None
     \<and> (\<forall>s\<in>set servers. Enabled s \<and> supported (Transport s) \<longrightarrow> Name s \<noteq> n)"
proof (induction servers arbitrary: tm n)
  case Nil
  then show ?case by simp
next
  case (Cons s rest)
  from createTunnel_cases [of s] show ?case
    by (auto simp: Cons.IH update_conv' split: if_splits)
qed

lemma register_loop_status:
  "map_of (status (register_loop servers tm)) n =
     (if \<exists>s\<in>set servers. Enabled s \<and> supported (Transport s) \<and> Name s = n
      then Some (new_status n) else map_of (status tm) n)"
proof (induction servers arbitrary: tm n)
  case Nil
  then show ?case by simp
next
  case (Cons s rest)
  from createTunnel_cases [of s] show ?case
    by (auto simp: Cons.IH update_conv')
qed

lemma StartTunnel_config:
  "StartTunnel now name (tm\<lparr>config := c\<rparr>)
     = map_option (\<lambda>(e, t). (e, t\<lparr>config := c\<rparr>)) (StartTunnel now name tm)"
  by (simp add: StartTunnel_def split: option.splits)

lemma startAutoSelected_config:
  assumes "SelectionMethod c = SelectionMethod (config tm)"
  shows "startAutoSelected w order now (tm\<lparr>config := c\<rparr>)
     = map_option (\<lambda>(e, t). (e, t\<lparr>config := c\<rparr>)) (startAutoSelected w order now tm)"
  using assms
  by (simp add: startAutoSelected_def startBestLatency_def startRandom_def startLeastLoad_def
      StartTunnel_config split: prod.splits list.splits)

lemma outcome_unlock_config:
  "outcome (unlock (map_option (\<lambda>(e, t). (e, t\<lparr>config := c\<rparr>)) r)) = outcome (unlock r)"
  by (cases r) (auto simp: outcome_def unlock_def)

lemma Start_without:
  assumes "createTunnel server = Inl err"
  shows "outcome (Start w order now (without server tm)) = outcome (Start w order now tm)"
proof (cases "mu tm")
  case True
  then show ?thesis by (simp add: Start_def without_def outcome_def)
next
  case False
  let ?c = "(config tm)\<lparr>Servers := filter (\<lambda>s. s \<noteq> server) (Servers (config tm))\<rparr>"
  let ?tm1 = "register_loop (Servers (config tm)) (tm\<lparr>mu := True, cancel := Some False\<rparr>)"
  have r: "register_loop (Servers ?c) ((without server tm)\<lparr>mu := True, cancel := Some False\<rparr>)
             = ?tm1\<lparr>config := ?c\<rparr>"
    using register_loop_skip [OF assms, of "Servers (config tm)"]
    by (simp add: without_def register_loop_config config_update_after_lock)
  have c1: "config ?tm1 = config tm" by (simp add: register_loop_frame)
  have s: "Start w order now (without server tm) =
             (if AutoSelect (config tm)
              then unlock (startAutoSelected w order now (?tm1\<lparr>config := ?c\<rparr>))
              else Some (None, ?tm1\<lparr>config := ?c, mu := False\<rparr>))"
    unfolding Start_def Let_def using False r by (simp add: without_def)
  have t: "Start w order now tm =
             (if AutoSelect (config tm) then unlock (startAutoSelected w order now ?tm1)
              else Some (None, ?tm1\<lparr>mu := False\<rparr>))"
    unfolding Start_def Let_def using False c1 by simp
  show ?thesis
  proof (cases "AutoSelect (config tm)")
    case True
    have "SelectionMethod ?c = SelectionMethod (config ?tm1)" using c1 by simp
    from startAutoSelected_config [OF this, of w order now] True s t
    show ?thesis by (simp add: outcome_unlock_config)
  next
    case False
    then show ?thesis using s t by (simp add: outcome_def)
  qed
qed

lemma StartTunnel_keys:
  assumes "StartTunnel now name tm = Some (e, tm')"
  shows "tunnels tm' = tunnels tm \<and> keys (status tm') = keys (status tm)"
  using assms
  by (auto simp: StartTunnel_def keys_update keys_map_of split: if_splits option.splits)

lemma startAutoSelected_keys:
  assumes "startAutoSelected w order now tm = Some (e, tm')"
  shows "tunnels tm' = tunnels tm \<and> keys (status tm') = keys (status tm)"
  using assms StartTunnel_keys
  by (auto simp: startAutoSelected_def startBestLatency_def startRandom_def startLeastLoad_def
      split: if_splits prod.splits list.splits)

lemma Start_registered:
  assumes "Start w order now tm = Some (e, tm')"
  shows "tunnels tm' = tunnels (register_loop (Servers (config tm)) (tm\<lparr>mu := True, cancel := Some False\<rparr>))
       \<and> keys (status tm') = keys (status (register_loop (Servers (config tm)) (tm\<lparr>mu := True, cancel := Some False\<rparr>)))"
proof -
  let ?tm1 = "register_loop (Servers (config tm)) (tm\<lparr>mu := True, cancel := Some False\<rparr>)"
  from assms have m: "\<not> mu tm" by (auto simp: Start_def split: if_splits)
  show ?thesis
  proof (cases "AutoSelect (config ?tm1)")
    case True
    then have "unlock (startAutoSelected w order now ?tm1) = Some (e, tm')"
      using assms m by (simp add: Start_def Let_def)
    then obtain tm2 where "startAutoSelected w order now ?tm1 = Some (e, tm2)" and "tm' = tm2\<lparr>mu := False\<rparr>"
      by (auto simp: unlock_def)
    then show ?thesis using startAutoSelected_keys [of w order now ?tm1 e tm2] by simp
  next
    case False
    then have "tm' = ?tm1\<lparr>mu := False\<rparr>"
      using assms m by (simp add: Start_def Let_def)
    then show ?thesis by simp
  qed
qed

text \<open>
  For an enabled server of the configuration whose transport kind has no adapter (and
  whose name is not the name of an existing entry or of a server that does get
  registered): \<open>createTunnel\<close> fails with \<open>UnsupportedTransport\<close>; whenever \<open>Start\<close>
  returns, neither the tunnel map nor the status map has an entry for it, while every
  enabled server with an adapter has both; \<open>Start\<close> leaves behind exactly what it
  leaves behind when that server is absent from the configuration; and with auto-select
  off \<open>Start\<close> returns \<open>nil\<close>, every registered tunnel being \<open>disconnected\<close>.
\<close>

lemma unsupported_transport_is_skipped:
  assumes "server \<in> set (Servers (config tm))" and "Enabled server"
    and "\<not> supported (Transport server)"
    and "Name server \<notin> keys (tunnels tm)" and "Name server \<notin> keys (status tm)"
    and "\<forall>s\<in>set (Servers (config tm)). Enabled s \<and> supported (Transport s) \<longrightarrow> Name s \<noteq> Name server"
  shows "createTunnel server = Inl (UnsupportedTransport (Transport server))
     \<and> outcome (Start w order now tm) = outcome (Start w order now (without server tm))
     \<and> (\<forall>e tm'. Start w order now tm = Some (e, tm') \<longrightarrow>
           Name server \<notin> keys (tunnels tm') \<and> Name server \<notin> keys (status tm')
           \<and> (\<forall>s\<in>set (Servers (config tm)). Enabled s \<and> supported (Transport s) \<longrightarrow>
                  Name s \<in> keys (tunnels tm') \<and> Name s \<in> keys (status tm')))
     \<and> (\<not> mu tm \<and> \<not> AutoSelect (config tm) \<longrightarrow>
           (\<exists>tm'. Start w order now tm = Some (None, tm')
              \<and> (\<forall>s\<in>set (Servers (config tm)). Enabled s \<and> supported (Transport s) \<longrightarrow>
                     map_of (status tm') (Name s) = Some (new_status (Name s)))))"
proof (intro conjI allI impI)
  show a: "createTunnel server = Inl (UnsupportedTransport (Transport server))"
    using assms(3) by (rule createTunnel_unsupported)
  show "outcome (Start w order now tm) = outcome (Start w order now (without server tm))"
    using Start_without [OF a] by simp
next
  fix e tm'
  assume r: "Start w order now tm = Some (e, tm')"
  let ?tm1 = "register_loop (Servers (config tm)) (tm\<lparr>mu := True, cancel := Some False\<rparr>)"
  from Start_registered [OF r]
  have t: "tunnels tm' = tunnels ?tm1" and k: "keys (status tm') = keys (status ?tm1)"
    by simp_all
  show "Name server \<notin> keys (tunnels tm')"
    using assms(4,6) by (simp add: t keys_map_of register_loop_tunnels_None)
  show "Name server \<notin> keys (status tm')"
    using assms(5,6) by (auto simp: k keys_map_of register_loop_status)
  show "\<forall>s\<in>set (Servers (config tm)). Enabled s \<and> supported (Transport s) \<longrightarrow>
          Name s \<in> keys (tunnels tm') \<and> Name s \<in> keys (status tm')"
    by (auto simp: t k keys_map_of register_loop_tunnels_None register_loop_status)
next
  assume "\<not> mu tm \<and> \<not> AutoSelect (config tm)"
  then show "\<exists>tm'. Start w order now tm = Some (None, tm')
      \<and> (\<forall>s\<in>set (Servers (config tm)). Enabled s \<and> supported (Transport s) \<longrightarrow>
             map_of (status tm') (Name s) = Some (new_status (Name s)))"
    by (auto simp: Start_def Let_def register_loop_frame register_loop_status)
qed

lemma unsupported_transport_is_skipped_example:
  "createTunnel (a_server ''x'' ''h2'' ''openvpn'') = Inl (UnsupportedTransport ''openvpn'')
   \<and> Start w_stop_fails [''a'', ''b''] 0 tm_three_kinds =
       Some (None, tm_three_kinds
         \<lparr>tunnels := [(''a'', SSHTunnel (a_server ''a'' ''h1'' ''ssh'')),
                      (''b'', TrojanTunnel (a_server ''b'' ''h3'' ''trojan''))],
          status := [(''a'', new_status ''a''), (''b'', new_status ''b'')],
          cancel := Some False\<rparr>)
   \<and> outcome (Start w_stop_fails [''a'', ''b''] 0 tm_three_kinds)
       = outcome (Start w_stop_fails [''a'', ''b''] 0 (without (a_server ''x'' ''h2'' ''openvpn'') tm_three_kinds))"
proof -
  let ?x = "a_server ''x'' ''h2'' ''openvpn''"
  have h1: "?x \<in> set (Servers (config tm_three_kinds))"
    by (simp add: tm_three_kinds_def NewTunnelManager_def)
  have h2: "Enabled ?x" by (simp add: a_server_def)
  have h3: "\<not> supported (Transport ?x)"
    by (simp add: a_server_def supported_def transport_defs)
  have h4: "Name ?x \<notin> keys (tunnels tm_three_kinds)"
    by (simp add: tm_three_kinds_def NewTunnelManager_def keys_def)
  have h5: "Name ?x \<notin> keys (status tm_three_kinds)"
    by (simp add: tm_three_kinds_def NewTunnelManager_def keys_def)
  have h6: "\<forall>s\<in>set (Servers (config tm_three_kinds)).
              Enabled s \<and> supported (Transport s) \<longrightarrow> Name s \<noteq> Name ?x"
    by (simp add: tm_three_kinds_def NewTunnelManager_def a_server_def supported_def transport_defs)
  have s: "Start w_stop_fails [''a'', ''b''] 0 tm_three_kinds =
       Some (None, tm_three_kinds
         \<lparr>tunnels := [(''a'', SSHTunnel (a_server ''a'' ''h1'' ''ssh'')),
                      (''b'', TrojanTunnel (a_server ''b'' ''h3'' ''trojan''))],
          status := [(''a'', new_status ''a''), (''b'', new_status ''b'')],
          cancel := Some False\<rparr>)"
    by (simp add: Start_def tm_three_kinds_def NewTunnelManager_def a_server_def createTunnel_def
        transport_defs)
  from unsupported_transport_is_skipped [OF h1 h2 h3 h4 h5 h6, of w_stop_fails "[''a'', ''b'']" 0] s
  show ?thesis by (simp add: a_server_def)
qed

text \<open>
  Registration keeps the status entries among the tunnels, as they are in a new manager.
\<close>

lemma register_loop_status_keys:
  assumes "keys (status tm) \<subseteq> keys (tunnels tm)"
  shows "keys (status (register_loop servers tm)) \<subseteq> keys (tunnels (register_loop servers tm))"
proof
  fix n assume "n \<in> keys (status (register_loop servers tm))"
  then have "map_of (status (register_loop servers tm)) n \<noteq> None" by (simp add: keys_map_of)
  then have "(\<exists>s\<in>set servers. Enabled s \<and> supported (Transport s) \<and> Name s = n)
      \<or> map_of (status tm) n \<noteq> None"
    by (auto simp: register_loop_status split: if_splits)
  moreover have "map_of (tunnels tm) n \<noteq> None" if "map_of (status tm) n \<noteq> None"
  proof -
    from that have "n \<in> keys (status tm)" by (simp add: keys_map_of)
    with assms have "n \<in> keys (tunnels tm)" by (rule subsetD)
    then show ?thesis by (simp add: keys_map_of)
  qed
  ultimately have "map_of (tunnels (register_loop servers tm)) n \<noteq> None"
    unfolding register_loop_tunnels_None by blast
  then show "n \<in> keys (tunnels (register_loop servers tm))" by (simp add: keys_map_of)
qed

lemma NewTunnelManager_status_keys:
  "keys (status (NewTunnelManager cfg)) \<subseteq> keys (tunnels (NewTunnelManager cfg))"
  by (simp add: NewTunnelManager_def keys_def)

text \<open>
  \<open>Start\<close> calls the selection policy while it still holds the manager's lock, and
  \<open>StartTunnel\<close>, which the policy calls, begins by taking that lock. With auto-select
  on, \<open>Start\<close> therefore either finds no tunnel to start or never returns; it never
  returns \<open>nil\<close>.
\<close>

lemma Start_auto_select_never_returns_nil:
  assumes "AutoSelect (config tm)"
  shows "Start w order now tm = None
       \<or> (\<exists>tm'. Start w order now tm = Some (Some NoAvailableServers, tm'))"
proof (cases "mu tm")
  case True
  then show ?thesis by (simp add: Start_def)
next
  case False
  let ?tm1 = "register_loop (Servers (config tm)) (tm\<lparr>mu := True, cancel := Some False\<rparr>)"
  have l: "mu ?tm1" and c: "config ?tm1 = config tm" by (simp_all add: register_loop_frame)
  have b: "\<And>name. StartTunnel now name ?tm1 = None" using l by (simp add: StartTunnel_def)
  have "startAutoSelected w order now ?tm1 = None
      \<or> startAutoSelected w order now ?tm1 = Some (Some NoAvailableServers, ?tm1)"
    by (auto simp: startAutoSelected_def startBestLatency_def startRandom_def startLeastLoad_def b
        split: prod.splits list.splits)
  then show ?thesis using False assms c
    by (auto simp: Start_def Let_def unlock_def)
qed

text \<open>
  C9. The configuration has an SSH server, a server of a kind without adapter and a
  Trojan server, and auto-select is on. \<open>createTunnel\<close> fails for the second server
  with \<open>UnsupportedTransport\<close> and \<open>Start\<close> goes on to register the other two, as the
  property says; but \<open>Start\<close> does not succeed: the SSH probe answers, the policy
  selects \<open>a\<close>, and \<open>StartTunnel\<close> waits for the lock that \<open>Start\<close> holds. When the
  SSH probe fails too, \<open>Start\<close> returns \<open>NoAvailableServers\<close>. With auto-select off,
  the same servers give \<open>nil\<close>.
\<close>

theorem Start_unsupported_transport_auto_select:
  "createTunnel (a_server ''x'' ''h2'' ''openvpn'') = Inl (UnsupportedTransport ''openvpn'')
   \<and> AutoSelect (config tm_three_kinds_auto)
   \<and> Start w_three [''a'', ''b''] 0 tm_three_kinds_auto = None
   \<and> Start w_three [''b'', ''a''] 0 tm_three_kinds_auto = None
   \<and> Start (repository_world (\<lambda>server. Inl (AdapterError ''ping failed''))) [''a'', ''b''] 0
         tm_three_kinds_auto =
       Some (Some NoAvailableServers, tm_three_kinds_auto
         \<lparr>tunnels := [(''a'', SSHTunnel (a_server ''a'' ''h1'' ''ssh'')),
                      (''b'', TrojanTunnel (a_server ''b'' ''h3'' ''trojan''))],
          status := [(''a'', new_status ''a''), (''b'', new_status ''b'')],
          cancel := Some False\<rparr>)
   \<and> Start w_three [''a'', ''b''] 0 tm_three_kinds =
       Some (None, tm_three_kinds
         \<lparr>tunnels := [(''a'', SSHTunnel (a_server ''a'' ''h1'' ''ssh'')),
                      (''b'', TrojanTunnel (a_server ''b'' ''h3'' ''trojan''))],
          status := [(''a'', new_status ''a''), (''b'', new_status ''b'')],
          cancel := Some False\<rparr>)"
proof (intro conjI)
  show "createTunnel (a_server ''x'' ''h2'' ''openvpn'') = Inl (UnsupportedTransport ''openvpn'')"
    by (simp add: createTunnel_def a_server_def transport_defs)
  show "AutoSelect (config tm_three_kinds_auto)"
    by (simp add: tm_three_kinds_auto_def NewTunnelManager_def)
  show "Start w_three [''a'', ''b''] 0 tm_three_kinds_auto = None"
    by (simp add: Start_def tm_three_kinds_auto_def NewTunnelManager_def a_server_def
        createTunnel_def transport_defs startAutoSelected_def startBestLatency_def w_three_def
        Millisecond_def Hour_def StartTunnel_def unlock_def)
  show "Start w_three [''b'', ''a''] 0 tm_three_kinds_auto = None"
    by (simp add: Start_def tm_three_kinds_auto_def NewTunnelManager_def a_server_def
        createTunnel_def transport_defs startAutoSelected_def startBestLatency_def w_three_def
        Millisecond_def Hour_def StartTunnel_def unlock_def)
  show "Start (repository_world (\<lambda>server. Inl (AdapterError ''ping failed''))) [''a'', ''b''] 0
         tm_three_kinds_auto =
       Some (Some NoAvailableServers, tm_three_kinds_auto
         \<lparr>tunnels := [(''a'', SSHTunnel (a_server ''a'' ''h1'' ''ssh'')),
                      (''b'', TrojanTunnel (a_server ''b'' ''h3'' ''trojan''))],
          status := [(''a'', new_status ''a''), (''b'', new_status ''b'')],
          cancel := Some False\<rparr>)"
    by (simp add: Start_def tm_three_kinds_auto_def NewTunnelManager_def a_server_def
        createTunnel_def transport_defs startAutoSelected_def startBestLatency_def
        repository_world_def Hour_def StartTunnel_def unlock_def)
  show "Start w_three [''a'', ''b''] 0 tm_three_kinds =
       Some (None, tm_three_kinds
         \<lparr>tunnels := [(''a'', SSHTunnel (a_server ''a'' ''h1'' ''ssh'')),
                      (''b'', TrojanTunnel (a_server ''b'' ''h3'' ''trojan''))],
          status := [(''a'', new_status ''a''), (''b'', new_status ''b'')],
          cancel := Some False\<rparr>)"
    by (simp add: Start_def tm_three_kinds_def NewTunnelManager_def a_server_def createTunnel_def
        transport_defs)
qed
section \<open>The best-latency policy\<close>

lemma measured_Cons:
  "measured w ts (name # rest) =
     (case map_of ts name of
        None \<Rightarrow> []
      | Some tunnel \<Rightarrow>
          (case Tunnel_Test w tunnel of Inl err \<Rightarrow> [] | Inr latency \<Rightarrow> [(name, latency)]))
     @ measured w ts rest"
  by (simp add: measured_def)

lemma measured_Nil: "measured w ts [] = []"
  by (simp add: measured_def)

lemma best_scan_first_minimum:
  "(best_scan w ts order (b, bl) = (b, bl) \<and> (\<forall>p\<in>set (measured w ts order). bl \<le> snd p))
   \<or> (\<exists>pre n l post. measured w ts order = pre @ (n, l) # post
         \<and> best_scan w ts order (b, bl) = (n, l) \<and> l < bl
         \<and> (\<forall>p\<in>set pre. l < snd p) \<and> (\<forall>p\<in>set post. l \<le> snd p))"
proof (induction order arbitrary: b bl)
  case Nil
  then show ?case by (simp add: measured_Nil)
next
  case (Cons name rest)
  show ?case
  proof (cases "map_of ts name")
    case None
    then show ?thesis using Cons.IH [of b bl] by (simp add: measured_Cons)
  next
    case (Some tunnel)
    show ?thesis
    proof (cases "Tunnel_Test w tunnel")
      case (Inl err)
      then show ?thesis using Some Cons.IH [of b bl] by (simp add: measured_Cons)
    next
      case (Inr latency)
      have m: "measured w ts (name # rest) = (name, latency) # measured w ts rest"
        using Some Inr by (simp add: measured_Cons)
      show ?thesis
      proof (cases "latency < bl")
        case True
        then have s: "best_scan w ts (name # rest) (b, bl) = best_scan w ts rest (name, latency)"
          using Some Inr by simp
        from Cons.IH [of name latency] show ?thesis
        proof (elim disjE conjE exE)
          assume "best_scan w ts rest (name, latency) = (name, latency)"
            and "\<forall>p\<in>set (measured w ts rest). latency \<le> snd p"
          then have "measured w ts (name # rest) = [] @ (name, latency) # measured w ts rest
              \<and> best_scan w ts (name # rest) (b, bl) = (name, latency) \<and> latency < bl
              \<and> (\<forall>p\<in>set []. latency < snd p) \<and> (\<forall>p\<in>set (measured w ts rest). latency \<le> snd p)"
            using m s True by simp
          then show ?thesis by blast
        next
          fix pre n l post
          assume "measured w ts rest = pre @ (n, l) # post"
            and "best_scan w ts rest (name, latency) = (n, l)" and "l < latency"
            and "\<forall>p\<in>set pre. l < snd p" and "\<forall>p\<in>set post. l \<le> snd p"
          then have "measured w ts (name # rest) = ((name, latency) # pre) @ (n, l) # post
              \<and> best_scan w ts (name # rest) (b, bl) = (n, l) \<and> l < bl
              \<and> (\<forall>p\<in>set ((name, latency) # pre). l < snd p) \<and> (\<forall>p\<in>set post. l \<le> snd p)"
            using m s True by simp
          then show ?thesis by blast
        qed
      next
        case False
        then have s: "best_scan w ts (name # rest) (b, bl) = best_scan w ts rest (b, bl)"
          using Some Inr by simp
        from Cons.IH [of b bl] show ?thesis
        proof (elim disjE conjE exE)
          assume "best_scan w ts rest (b, bl) = (b, bl)"
            and "\<forall>p\<in>set (measured w ts rest). bl \<le> snd p"
          then show ?thesis using m s False by simp
        next
          fix pre n l post
          assume "measured w ts rest = pre @ (n, l) # post"
            and "best_scan w ts rest (b, bl) = (n, l)" and "l < bl"
            and "\<forall>p\<in>set pre. l < snd p" and "\<forall>p\<in>set post. l \<le> snd p"
          then have "measured w ts (name # rest) = ((name, latency) # pre) @ (n, l) # post
              \<and> best_scan w ts (name # rest) (b, bl) = (n, l) \<and> l < bl
              \<and> (\<forall>p\<in>set ((name, latency) # pre). l < snd p) \<and> (\<forall>p\<in>set post. l \<le> snd p)"
            using m s False by simp
          then show ?thesis by blast
        qed
      qed
    qed
  qed
qed

lemma measured_set:
  "set (measured w ts order) =
     {(n, l). n \<in> set order \<and> (\<exists>t. map_of ts n = Some t \<and> Tunnel_Test w t = Inr l)}"
proof (induction order)
  case Nil
  then show ?case by (simp add: measured_Nil)
next
  case (Cons name rest)
  show ?case
  proof (cases "map_of ts name")
    case None
    then show ?thesis by (auto simp: measured_Cons Cons.IH)
  next
    case (Some tunnel)
    then show ?thesis
      by (cases "Tunnel_Test w tunnel") (auto simp: measured_Cons Cons.IH)
  qed
qed

lemma startBestLatency_selection:
  "((\<forall>p\<in>set (measured w (tunnels tm) order). Hour \<le> snd p)
      \<and> startBestLatency w order now tm = Some (Some NoAvailableServers, tm))
   \<or> (\<exists>pre n l post. measured w (tunnels tm) order = pre @ (n, l) # post \<and> l < Hour
         \<and> (\<forall>p\<in>set pre. l < snd p) \<and> (\<forall>p\<in>set post. l \<le> snd p)
         \<and> startBestLatency w order now tm =
             (if n = [] then Some (Some NoAvailableServers, tm) else StartTunnel now n tm))"
  using best_scan_first_minimum [of w "tunnels tm" order "[]" Hour]
proof (elim disjE conjE exE)
  assume "best_scan w (tunnels tm) order ([], Hour) = ([], Hour)"
    and "\<forall>p\<in>set (measured w (tunnels tm) order). Hour \<le> snd p"
  then show ?thesis by (simp add: startBestLatency_def)
next
  fix pre n l post
  assume m: "measured w (tunnels tm) order = pre @ (n, l) # post"
    and b: "best_scan w (tunnels tm) order ([], Hour) = (n, l)" and "l < Hour"
    and "\<forall>p\<in>set pre. l < snd p" and "\<forall>p\<in>set post. l \<le> snd p"
  moreover have "startBestLatency w order now tm =
             (if n = [] then Some (Some NoAvailableServers, tm) else StartTunnel now n tm)"
    using b by (simp add: startBestLatency_def)
  ultimately show ?thesis by blast
qed

lemma every_tunnel_tested:
  assumes "visits ts order" and "map_of ts n = Some t"
  shows "case Tunnel_Test w t of
           Inl err \<Rightarrow> n \<notin> fst ` set (measured w ts order)
         | Inr l \<Rightarrow> (n, l) \<in> set (measured w ts order)"
proof -
  have "n \<in> set order" using assms by (simp add: visits_def keys_map_of)
  then show ?thesis using assms(2) by (auto simp: measured_set split: sum.splits)
qed

text \<open>
  C4, as the code has it. The scan tests every registered tunnel; a tunnel whose probe
  fails contributes nothing; the tunnel chosen is the first one, in the order in which
  the \<open>range\<close> loop visits the map, whose latency is minimal and below one hour (when
  there is none the result is \<open>NoAvailableServers\<close>), and its name is what
  \<open>startBestLatency\<close> passes to \<open>StartTunnel\<close>. The tie-break is the visiting order of
  the map, not the order of the configuration.
\<close>

theorem best_latency_selects_first_minimum:
  assumes "visits (tunnels tm) order"
  shows "(\<forall>n t. map_of (tunnels tm) n = Some t \<longrightarrow>
            (case Tunnel_Test w t of
               Inl err \<Rightarrow> n \<notin> fst ` set (measured w (tunnels tm) order)
             | Inr l \<Rightarrow> (n, l) \<in> set (measured w (tunnels tm) order)))
     \<and> (((\<forall>p\<in>set (measured w (tunnels tm) order). Hour \<le> snd p)
           \<and> startBestLatency w order now tm = Some (Some NoAvailableServers, tm))
        \<or> (\<exists>pre n l post. measured w (tunnels tm) order = pre @ (n, l) # post \<and> l < Hour
              \<and> (\<forall>p\<in>set pre. l < snd p) \<and> (\<forall>p\<in>set post. l \<le> snd p)
              \<and> startBestLatency w order now tm =
                  (if n = [] then Some (Some NoAvailableServers, tm) else StartTunnel now n tm)))"
  using every_tunnel_tested [OF assms] startBestLatency_selection [of w tm order now]
  by blast

theorem best_latency_selects_first_minimum_witness:
  "visits (tunnels tm_three) [''a'', ''b'', ''c'']
   \<and> measured w_three (tunnels tm_three) [''a'', ''b'', ''c'']
       = [(''a'', 80000000), (''b'', 25000000), (''c'', 45000000)]
   \<and> startBestLatency w_three [''a'', ''b'', ''c''] 7 tm_three = StartTunnel 7 ''b'' tm_three
   \<and> (((\<forall>p\<in>set (measured w_three (tunnels tm_three) [''a'', ''b'', ''c'']). Hour \<le> snd p)
           \<and> startBestLatency w_three [''a'', ''b'', ''c''] 7 tm_three = Some (Some NoAvailableServers, tm_three))
        \<or> (\<exists>pre n l post. measured w_three (tunnels tm_three) [''a'', ''b'', ''c''] = pre @ (n, l) # post \<and> l < Hour
              \<and> (\<forall>p\<in>set pre. l < snd p) \<and> (\<forall>p\<in>set post. l \<le> snd p)
              \<and> startBestLatency w_three [''a'', ''b'', ''c''] 7 tm_three =
                  (if n = [] then Some (Some NoAvailableServers, tm_three) else StartTunnel 7 n tm_three)))"
proof -
  have h: "visits (tunnels tm_three) [''a'', ''b'', ''c'']"
    by (auto simp: visits_def keys_def tm_three_def)
  have m: "measured w_three (tunnels tm_three) [''a'', ''b'', ''c'']
       = [(''a'', 80000000), (''b'', 25000000), (''c'', 45000000)]"
    by (simp add: measured_def tm_three_def w_three_def a_server_def Millisecond_def)
  have s: "startBestLatency w_three [''a'', ''b'', ''c''] 7 tm_three = StartTunnel 7 ''b'' tm_three"
    by (simp add: startBestLatency_def tm_three_def w_three_def a_server_def Millisecond_def Hour_def)
  from best_latency_selects_first_minimum [OF h, of w_three 7] h m s
  show ?thesis by blast
qed

text \<open>
  The scenario of the specification: with 80 ms, 25 ms and 45 ms the 25 ms tunnel is
  the one passed to \<open>StartTunnel\<close>, in whatever order the map is visited.
\<close>

lemma scenario_80_25_45_any_order:
  assumes "visits (tunnels tm_three) order"
  shows "startBestLatency w_three order now tm_three = StartTunnel now ''b'' tm_three"
proof -
  have o: "set order = {''a'', ''b'', ''c''}"
    using assms by (simp add: visits_def keys_def tm_three_def)
  have mem: "(''b'', 25000000) \<in> set (measured w_three (tunnels tm_three) order)"
    unfolding measured_set o
    by (simp add: tm_three_def w_three_def a_server_def Millisecond_def)
  have others: "n = ''b'' \<or> 25000000 < l"
    if "(n, l) \<in> set (measured w_three (tunnels tm_three) order)" for n l
  proof -
    from that have n: "n = ''a'' \<or> n = ''b'' \<or> n = ''c''"
      and t: "\<exists>t. map_of (tunnels tm_three) n = Some t \<and> Tunnel_Test w_three t = Inr l"
      unfolding measured_set o by simp_all
    from n show ?thesis
    proof (elim disjE)
      assume "n = ''a''"
      with t show ?thesis
        by (simp add: tm_three_def w_three_def a_server_def Millisecond_def)
    next
      assume "n = ''b''"
      then show ?thesis by simp
    next
      assume "n = ''c''"
      with t show ?thesis
        by (simp add: tm_three_def w_three_def a_server_def Millisecond_def)
    qed
  qed
  from startBestLatency_selection [of w_three tm_three order now] show ?thesis
  proof (elim disjE conjE exE)
    assume "\<forall>p\<in>set (measured w_three (tunnels tm_three) order). Hour \<le> snd p"
    with mem have "Hour \<le> 25000000" by fastforce
    then show ?thesis by (simp add: Hour_def)
  next
    fix pre n l post
    assume m: "measured w_three (tunnels tm_three) order = pre @ (n, l) # post"
      and pre: "\<forall>p\<in>set pre. l < snd p" and post: "\<forall>p\<in>set post. l \<le> snd p"
      and r: "startBestLatency w_three order now tm_three =
                (if n = [] then Some (Some NoAvailableServers, tm_three) else StartTunnel now n tm_three)"
    have "(''b'', 25000000) \<in> set (pre @ (n, l) # post)" using m mem by simp
    then have "l \<le> 25000000" using pre post by fastforce
    moreover have "(n, l) \<in> set (measured w_three (tunnels tm_three) order)" using m by simp
    ultimately have "n = ''b''" using others [of n l] by simp
    then show ?thesis using r by simp
  qed
qed

text \<open>
  Through \<open>Start\<close> the policy runs with the manager's lock held (lemma
  \<open>Start_auto_select_never_returns_nil\<close>), so the selected tunnel is never started.
\<close>

lemma scenario_80_25_45_Start_blocks:
  "Start w_three [''a'', ''b'', ''c''] 7 (NewTunnelManager cfg_three) = None"
  by (simp add: Start_def NewTunnelManager_def cfg_three_def a_server_def createTunnel_def
      transport_defs startAutoSelected_def startBestLatency_def w_three_def Millisecond_def
      Hour_def StartTunnel_def unlock_def)

text \<open>
  C4 as stated (ties broken by configuration order) fails: \<open>a\<close> is configured before
  \<open>b\<close>, both measure 30 ms, and when the loop visits \<open>b\<close> first, \<open>b\<close> is the tunnel
  passed to \<open>StartTunnel\<close>.
\<close>

theorem best_latency_tie_counterexample:
  "map Name (Servers (config tm_two)) = [''a'', ''b'']
   \<and> visits (tunnels tm_two) [''b'', ''a'']
   \<and> measured w_tie (tunnels tm_two) [''b'', ''a''] = [(''b'', 30000000), (''a'', 30000000)]
   \<and> startBestLatency w_tie [''b'', ''a''] 7 tm_two = StartTunnel 7 ''b'' tm_two
   \<and> map_option (\<lambda>(e, tm'). started tm') (startBestLatency w_tie [''b'', ''a''] 7 tm_two) = Some [''b'']"
  by (auto simp: tm_two_def a_server_def visits_def keys_def measured_def w_tie_def
      Millisecond_def Hour_def startBestLatency_def StartTunnel_def)

section \<open>Load balancing that selects no node\<close>

lemmas mesh_example_defs = a_mesh_def a_node_def a_mesh_config_def NewMeshNetwork_def

lemma a_mesh_visits_3:
  "visits (nodes (a_mesh [a_node i0 m0 s0 g0 l0 d0, a_node i1 m1 s1 g1 l1 d1, a_node i2 m2 s2 g2 l2 d2] p)) order
     \<longleftrightarrow> distinct order \<and> set order = {i0, i1, i2}"
  by (auto simp: visits_def keys_def a_mesh_def a_node_def upt_rec)

lemma latencyBased_loop_none:
  assumes "\<forall>r\<in>set ns. bestLatency \<le> MeshNode.Latency (store mn r)"
  shows "latencyBased_loop mn ns (bestNode, bestLatency) = (bestNode, bestLatency)"
  using assms by (induction ns) auto

lemma leastConnections_loop_none:
  assumes "\<forall>r\<in>set ns. bestLoad \<le> LoadScore (store mn r)"
  shows "leastConnections_loop mn ns (bestNode, bestLoad) = (bestNode, bestLoad)"
  using assms by (induction ns) auto

text \<open>
  C10. When there are healthy nodes, \<open>LoadBalance\<close> returns a \<open>nil\<close> node together with a
  \<open>nil\<close> error under the \<open>latency\<close> policy if every healthy node's latency is at least
  one hour, and under the \<open>least_connections\<close> policy if every healthy node's load score
  is at least 1.
\<close>

theorem LoadBalance_nil_node_nil_error:
  assumes "getHealthyNodes mn order \<noteq> []"
  shows "(LoadBalancing (MeshNetwork.config mn) = ''latency''
            \<and> (\<forall>r\<in>set (getHealthyNodes mn order). Hour \<le> MeshNode.Latency (store mn r))
          \<longrightarrow> LoadBalance mn order second target = Inr None)
       \<and> (LoadBalancing (MeshNetwork.config mn) = ''least_connections''
            \<and> (\<forall>r\<in>set (getHealthyNodes mn order). 1 \<le> LoadScore (store mn r))
          \<longrightarrow> LoadBalance mn order second target = Inr None)"
  using assms
  by (auto simp: LoadBalance_def Let_def latencyBasedSelect_def leastConnectionsSelect_def
      latencyBased_loop_none leastConnections_loop_none)

theorem LoadBalance_nil_node_nil_error_witness:
  "getHealthyNodes (mesh_slow ''latency'') [''n2'', ''local'', ''n1''] = [2, 1]
   \<and> LoadBalance (mesh_slow ''latency'') [''n2'', ''local'', ''n1''] 0 ''example.org'' = Inr None
   \<and> getHealthyNodes (mesh_slow ''least_connections'') [''n2'', ''local'', ''n1''] = [2, 1]
   \<and> LoadBalance (mesh_slow ''least_connections'') [''n2'', ''local'', ''n1''] 0 ''example.org'' = Inr None"
proof -
  let ?o = "[''n2'', ''local'', ''n1'']"
  have h: "getHealthyNodes (mesh_slow p) ?o = [2, 1]" for p
    by (simp add: getHealthyNodes_def mesh_slow_def a_mesh_def a_node_def upt_rec)
  have l: "\<forall>r\<in>set (getHealthyNodes (mesh_slow ''latency'') ?o).
             Hour \<le> MeshNode.Latency (store (mesh_slow ''latency'') r)"
    unfolding h by (simp add: mesh_slow_def a_mesh_def a_node_def Hour_def)
  have c: "\<forall>r\<in>set (getHealthyNodes (mesh_slow ''least_connections'') ?o).
             1 \<le> LoadScore (store (mesh_slow ''least_connections'') r)"
    unfolding h by (simp add: mesh_slow_def a_mesh_def a_node_def)
  have p1: "LoadBalancing (MeshNetwork.config (mesh_slow ''latency'')) = ''latency''"
    by (simp add: mesh_slow_def a_mesh_def a_mesh_config_def)
  have p2: "LoadBalancing (MeshNetwork.config (mesh_slow ''least_connections'')) = ''least_connections''"
    by (simp add: mesh_slow_def a_mesh_def a_mesh_config_def)
  have n1: "getHealthyNodes (mesh_slow ''latency'') ?o \<noteq> []" unfolding h by simp
  have n2: "getHealthyNodes (mesh_slow ''least_connections'') ?o \<noteq> []" unfolding h by simp
  from LoadBalance_nil_node_nil_error [OF n1, of 0 "''example.org''"] l p1
  have r1: "LoadBalance (mesh_slow ''latency'') ?o 0 ''example.org'' = Inr None" by blast
  from LoadBalance_nil_node_nil_error [OF n2, of 0 "''example.org''"] c p2
  have r2: "LoadBalance (mesh_slow ''least_connections'') ?o 0 ''example.org'' = Inr None" by blast
  show ?thesis using h r1 r2 by simp
qed

section \<open>The health check\<close>

lemma health_loop_frame:
  "nodes (health_loop pingNode now order mn) = nodes mn
   \<and> localNode (health_loop pingNode now order mn) = localNode mn
   \<and> MeshNetwork.config (health_loop pingNode now order mn) = MeshNetwork.config mn
   \<and> next_ref (health_loop pingNode now order mn) = next_ref mn"
  by (induction order arbitrary: mn) (auto split: option.splits sum.splits)

lemma probed_idem: "probed result now (probed result now node) = probed result now node"
  by (cases result) (auto simp: probed_def)

lemma health_loop_step:
  "health_loop pingNode now (k # rest) mn =
     (case map_of (nodes mn) k of
        None \<Rightarrow> health_loop pingNode now rest mn
      | Some r \<Rightarrow>
          if Some r = localNode mn then health_loop pingNode now rest mn
          else health_loop pingNode now rest
                 (mn\<lparr>store := (store mn)(r := probed (pingNode r) now (store mn r))\<rparr>))"
  by (auto simp: probed_def split: option.splits sum.splits)

lemma health_loop_store:
  "store (health_loop pingNode now order mn) r =
     (if Some r \<noteq> localNode mn \<and> (\<exists>k\<in>set order. map_of (nodes mn) k = Some r)
      then probed (pingNode r) now (store mn r) else store mn r)"
proof (induction order arbitrary: mn)
  case Nil
  then show ?case by simp
next
  case (Cons k rest)
  show ?case
  proof (cases "map_of (nodes mn) k")
    case None
    then show ?thesis by (auto simp: health_loop_step Cons.IH simp del: health_loop.simps)
  next
    case (Some r')
    then show ?thesis
      by (auto simp: health_loop_step Cons.IH probed_idem simp del: health_loop.simps)
  qed
qed

text \<open>
  C8. One run of \<open>performHealthCheck\<close>, for every registered node other than the local
  node: when its probe succeeds the node is \<open>online\<close> afterwards (so an offline node
  comes back) and \<open>LastSeen\<close> and \<open>Latency\<close> hold the instant of the tick and the
  measured latency; when its probe fails an online node is \<open>offline\<close> afterwards, any
  other status stays, and \<open>LastSeen\<close> and \<open>Latency\<close> are unchanged. So \<open>LastSeen\<close>
  moves only on a successful probe.
\<close>

theorem health_check_transitions:
  assumes "visits (nodes mn) order" and "map_of (nodes mn) k = Some r" and "Some r \<noteq> localNode mn"
  shows "(case pingNode r of
            Inr latency \<Rightarrow>
              MeshNode.Status (store (performHealthCheck pingNode now order mn) r) = ''online''
              \<and> LastSeen (store (performHealthCheck pingNode now order mn) r) = now
              \<and> MeshNode.Latency (store (performHealthCheck pingNode now order mn) r) = latency
          | Inl err \<Rightarrow>
              MeshNode.Status (store (performHealthCheck pingNode now order mn) r) =
                (if MeshNode.Status (store mn r) = ''online'' then ''offline''
                 else MeshNode.Status (store mn r))
              \<and> LastSeen (store (performHealthCheck pingNode now order mn) r) = LastSeen (store mn r)
              \<and> MeshNode.Latency (store (performHealthCheck pingNode now order mn) r)
                  = MeshNode.Latency (store mn r))"
proof -
  have "k \<in> set order" using assms(1,2) by (simp add: visits_def keys_map_of)
  then have "store (performHealthCheck pingNode now order mn) r = probed (pingNode r) now (store mn r)"
    using assms(2,3) by (auto simp: performHealthCheck_def health_loop_store)
  then show ?thesis by (cases "pingNode r") (auto simp: probed_def)
qed

theorem health_check_transitions_witness:
  "visits (nodes mesh_health) [''n2'', ''local'', ''n1'']
   \<and> MeshNode.Status (store mesh_health 1) = ''online''
   \<and> MeshNode.Status (store (performHealthCheck ping_n1_fails 100 [''n2'', ''local'', ''n1''] mesh_health) 1) = ''offline''
   \<and> LastSeen (store (performHealthCheck ping_n1_fails 100 [''n2'', ''local'', ''n1''] mesh_health) 1) = 0
   \<and> MeshNode.Latency (store (performHealthCheck ping_n1_fails 100 [''n2'', ''local'', ''n1''] mesh_health) 1) = 7000000
   \<and> MeshNode.Status (store mesh_health 2) = ''offline''
   \<and> MeshNode.Status (store (performHealthCheck ping_n1_fails 100 [''n2'', ''local'', ''n1''] mesh_health) 2) = ''online''
   \<and> LastSeen (store (performHealthCheck ping_n1_fails 100 [''n2'', ''local'', ''n1''] mesh_health) 2) = 100
   \<and> MeshNode.Latency (store (performHealthCheck ping_n1_fails 100 [''n2'', ''local'', ''n1''] mesh_health) 2) = 5000000
   \<and> MeshNode.Status (store (performHealthCheck ping_succeeds 200 [''n1'', ''n2'', ''local'']
         (performHealthCheck ping_n1_fails 100 [''n2'', ''local'', ''n1''] mesh_health)) 1) = ''online''
   \<and> LastSeen (store (performHealthCheck ping_succeeds 200 [''n1'', ''n2'', ''local'']
         (performHealthCheck ping_n1_fails 100 [''n2'', ''local'', ''n1''] mesh_health)) 1) = 200"
proof -
  let ?o = "[''n2'', ''local'', ''n1'']"
  let ?mn1 = "performHealthCheck ping_n1_fails 100 ?o mesh_health"
  have v: "visits (nodes mesh_health) ?o"
    unfolding mesh_health_def a_mesh_visits_3 by auto
  have k1: "map_of (nodes mesh_health) ''n1'' = Some 1"
    and k2: "map_of (nodes mesh_health) ''n2'' = Some 2"
    and l: "localNode mesh_health = Some 0"
    by (simp_all add: mesh_health_def mesh_example_defs upt_rec)
  have l1: "Some 1 \<noteq> localNode mesh_health" and l2: "Some 2 \<noteq> localNode mesh_health"
    using l by simp_all
  have f: "nodes ?mn1 = nodes mesh_health" "localNode ?mn1 = localNode mesh_health"
    by (simp_all add: performHealthCheck_def health_loop_frame del: health_loop.simps)
  have v0: "visits (nodes mesh_health) [''n1'', ''n2'', ''local'']"
    unfolding mesh_health_def a_mesh_visits_3 by auto
  have v': "visits (nodes ?mn1) [''n1'', ''n2'', ''local'']"
    using v0 by (simp only: f)
  have k1': "map_of (nodes ?mn1) ''n1'' = Some 1" and l1': "Some 1 \<noteq> localNode ?mn1"
    using k1 l1 f by simp_all
  have s: "MeshNode.Status (store mesh_health 1) = ''online''"
      "MeshNode.Status (store mesh_health 2) = ''offline''"
      "LastSeen (store mesh_health 1) = 0" "MeshNode.Latency (store mesh_health 1) = 7000000"
    by (simp_all add: mesh_health_def mesh_example_defs Millisecond_def)
  have p: "ping_n1_fails 1 = Inl (AdapterError ''timeout'')" "ping_n1_fails 2 = Inr 5000000"
      "ping_succeeds 1 = Inr 4000000"
    by (simp_all add: ping_n1_fails_def ping_succeeds_def Millisecond_def)
  from health_check_transitions [OF v k1 l1, of ping_n1_fails 100]
    health_check_transitions [OF v k2 l2, of ping_n1_fails 100]
    health_check_transitions [OF v' k1' l1', of ping_succeeds 200]
  show ?thesis using v s p by simp
qed

section \<open>Choosing the best node\<close>

lemma getHealthyNodes_loop_acc:
  "getHealthyNodes_loop mn order acc = acc @ getHealthyNodes_loop mn order []"
proof (induction order arbitrary: acc)
  case Nil
  then show ?case by simp
next
  case (Cons k rest)
  note ih = Cons.IH
  show ?case
  proof (cases "map_of (nodes mn) k")
    case None
    then show ?thesis using ih [of acc] by simp
  next
    case (Some r)
    show ?thesis
    proof (cases "MeshNode.Status (store mn r) = ''online'' \<and> Some r \<noteq> localNode mn")
      case True
      then show ?thesis using Some ih [of "acc @ [r]"] ih [of "[r]"] by simp
    next
      case False
      then show ?thesis using Some ih [of acc] by auto
    qed
  qed
qed

lemma getHealthyNodes_Cons:
  "getHealthyNodes mn (k # rest) =
     (case map_of (nodes mn) k of
        None \<Rightarrow> []
      | Some r \<Rightarrow>
          if MeshNode.Status (store mn r) = ''online'' \<and> Some r \<noteq> localNode mn then [r] else [])
     @ getHealthyNodes mn rest"
  using getHealthyNodes_loop_acc [of mn rest "[the (map_of (nodes mn) k)]"]
  by (auto simp: getHealthyNodes_def split: option.splits)

lemma getHealthyNodes_set:
  "set (getHealthyNodes mn order) =
     {r. (\<exists>k\<in>set order. map_of (nodes mn) k = Some r)
         \<and> MeshNode.Status (store mn r) = ''online'' \<and> Some r \<noteq> localNode mn}"
proof (induction order)
  case Nil
  then show ?case by (simp add: getHealthyNodes_def)
next
  case (Cons k rest)
  show ?case
    by (cases "map_of (nodes mn) k") (auto simp: getHealthyNodes_Cons Cons.IH)
qed

lemma getHealthyNodes_eligible:
  assumes "visits (nodes mn) order"
  shows "r \<in> set (getHealthyNodes mn order) \<longleftrightarrow> eligible mn r"
proof -
  have "(\<exists>k\<in>set order. map_of (nodes mn) k = Some r) \<longleftrightarrow> (\<exists>k. map_of (nodes mn) k = Some r)"
    using assms by (auto simp: visits_def keys_map_of)
  then show ?thesis by (simp add: getHealthyNodes_set eligible_def)
qed

text \<open>
  The comparison of \<open>float64\<close> is irreflexive and transitive, and two values that are
  not NaN and of which neither is greater than the other are equal.
\<close>

lemma fgt_irrefl: "\<not> fgt x x"
  by (cases x) simp_all

lemma fgt_trans: "fgt x y \<Longrightarrow> fgt y z \<Longrightarrow> fgt x z"
  by (cases x; cases y; cases z) simp_all

lemma fgt_asym: "fgt x y \<Longrightarrow> \<not> fgt y x"
  using fgt_trans [of x y x] fgt_irrefl [of x] by blast

lemma fgt_neq: "fgt x y \<Longrightarrow> y \<noteq> x"
  using fgt_irrefl [of x] by auto

lemma fgt_total: "x \<noteq> NaN \<Longrightarrow> y \<noteq> NaN \<Longrightarrow> \<not> fgt x y \<Longrightarrow> \<not> fgt y x \<Longrightarrow> x = y"
  by (cases x; cases y) simp_all

text \<open>
  The scan of \<open>GetBestNode\<close> meets the eligible nodes in visiting order, which is the list
  \<open>getHealthyNodes\<close> builds. It ends with a node of that list that no node of the list
  beats, and no node before it in the list has its score.
\<close>

lemma best_node_scan_step:
  assumes "map_of (nodes mn) k = Some r0" and "MeshNode.Status (store mn r0) = ''online''"
    and "Some r0 \<noteq> localNode mn"
  shows "best_node_scan mn c (k # rest) (None, bs) = best_node_scan mn c rest (Some r0, score mn c r0)"
    and "fgt (score mn c r0) bs \<Longrightarrow>
         best_node_scan mn c (k # rest) (Some x, bs) = best_node_scan mn c rest (Some r0, score mn c r0)"
    and "\<not> fgt (score mn c r0) bs \<Longrightarrow>
         best_node_scan mn c (k # rest) (Some x, bs) = best_node_scan mn c rest (Some x, bs)"
    and "getHealthyNodes mn (k # rest) = r0 # getHealthyNodes mn rest"
  using assms by (auto simp: score_def getHealthyNodes_Cons)

lemma best_node_scan_skip:
  assumes "\<not> (\<exists>r. map_of (nodes mn) k = Some r
                  \<and> MeshNode.Status (store mn r) = ''online'' \<and> Some r \<noteq> localNode mn)"
  shows "best_node_scan mn c (k # rest) (b, bs) = best_node_scan mn c rest (b, bs)"
    and "getHealthyNodes mn (k # rest) = getHealthyNodes mn rest"
  using assms by (auto simp: getHealthyNodes_Cons split: option.splits)

lemma best_node_scan_some:
  "(best_node_scan mn c order (Some x, bs) = (Some x, bs)
      \<and> (\<forall>p\<in>set (getHealthyNodes mn order). \<not> fgt (score mn c p) bs))
   \<or> (\<exists>pre r post. getHealthyNodes mn order = pre @ r # post
         \<and> best_node_scan mn c order (Some x, bs) = (Some r, score mn c r)
         \<and> fgt (score mn c r) bs
         \<and> (\<forall>p\<in>set pre. \<not> fgt (score mn c p) (score mn c r) \<and> score mn c p \<noteq> score mn c r)
         \<and> (\<forall>p\<in>set post. \<not> fgt (score mn c p) (score mn c r)))"
proof (induction order arbitrary: x bs)
  case Nil
  then show ?case by (simp add: getHealthyNodes_def)
next
  case (Cons k rest)
  let ?cs = "getHealthyNodes mn rest"
  show ?case
  proof (cases "\<exists>r. map_of (nodes mn) k = Some r
                  \<and> MeshNode.Status (store mn r) = ''online'' \<and> Some r \<noteq> localNode mn")
    case False
    show ?thesis unfolding best_node_scan_skip [OF False] by (rule Cons.IH)
  next
    case True
    then obtain r0 where r0: "map_of (nodes mn) k = Some r0"
      "MeshNode.Status (store mn r0) = ''online''" "Some r0 \<noteq> localNode mn" by blast
    note g = best_node_scan_step(4) [OF r0]
    show ?thesis
    proof (cases "fgt (score mn c r0) bs")
      case True
      note s = best_node_scan_step(2) [OF r0 True]
      from Cons.IH [of r0 "score mn c r0"] show ?thesis
      proof (elim disjE conjE exE)
        assume "best_node_scan mn c rest (Some r0, score mn c r0) = (Some r0, score mn c r0)"
          and "\<forall>p\<in>set ?cs. \<not> fgt (score mn c p) (score mn c r0)"
        then have "getHealthyNodes mn (k # rest) = [] @ r0 # ?cs
            \<and> best_node_scan mn c (k # rest) (Some x, bs) = (Some r0, score mn c r0)
            \<and> fgt (score mn c r0) bs
            \<and> (\<forall>p\<in>set []. \<not> fgt (score mn c p) (score mn c r0) \<and> score mn c p \<noteq> score mn c r0)
            \<and> (\<forall>p\<in>set ?cs. \<not> fgt (score mn c p) (score mn c r0))"
          using g s True by simp
        then show ?thesis by blast
      next
        fix pre r post
        assume a: "?cs = pre @ r # post"
          "best_node_scan mn c rest (Some r0, score mn c r0) = (Some r, score mn c r)"
          "fgt (score mn c r) (score mn c r0)"
          "\<forall>p\<in>set pre. \<not> fgt (score mn c p) (score mn c r) \<and> score mn c p \<noteq> score mn c r"
          "\<forall>p\<in>set post. \<not> fgt (score mn c p) (score mn c r)"
        have "\<not> fgt (score mn c r0) (score mn c r)" using a(3) by (rule fgt_asym)
        moreover have "score mn c r0 \<noteq> score mn c r" using a(3) by (rule fgt_neq)
        moreover have "fgt (score mn c r) bs" using a(3) True by (rule fgt_trans)
        ultimately have "getHealthyNodes mn (k # rest) = (r0 # pre) @ r # post
            \<and> best_node_scan mn c (k # rest) (Some x, bs) = (Some r, score mn c r)
            \<and> fgt (score mn c r) bs
            \<and> (\<forall>p\<in>set (r0 # pre). \<not> fgt (score mn c p) (score mn c r) \<and> score mn c p \<noteq> score mn c r)
            \<and> (\<forall>p\<in>set post. \<not> fgt (score mn c p) (score mn c r))"
          using g s a by simp
        then show ?thesis by blast
      qed
    next
      case False
      note s = best_node_scan_step(3) [OF r0 False]
      from Cons.IH [of x bs] show ?thesis
      proof (elim disjE conjE exE)
        assume "best_node_scan mn c rest (Some x, bs) = (Some x, bs)"
          and "\<forall>p\<in>set ?cs. \<not> fgt (score mn c p) bs"
        then show ?thesis using g s False by simp
      next
        fix pre r post
        assume a: "?cs = pre @ r # post"
          "best_node_scan mn c rest (Some x, bs) = (Some r, score mn c r)"
          "fgt (score mn c r) bs"
          "\<forall>p\<in>set pre. \<not> fgt (score mn c p) (score mn c r) \<and> score mn c p \<noteq> score mn c r"
          "\<forall>p\<in>set post. \<not> fgt (score mn c p) (score mn c r)"
        have "\<not> fgt (score mn c r0) (score mn c r)"
          using False fgt_trans [OF _ a(3), of "score mn c r0"] by blast
        moreover have "score mn c r0 \<noteq> score mn c r" using False a(3) by auto
        ultimately have "getHealthyNodes mn (k # rest) = (r0 # pre) @ r # post
            \<and> best_node_scan mn c (k # rest) (Some x, bs) = (Some r, score mn c r)
            \<and> fgt (score mn c r) bs
            \<and> (\<forall>p\<in>set (r0 # pre). \<not> fgt (score mn c p) (score mn c r) \<and> score mn c p \<noteq> score mn c r)
            \<and> (\<forall>p\<in>set post. \<not> fgt (score mn c p) (score mn c r))"
          using g s a by simp
        then show ?thesis by blast
      qed
    qed
  qed
qed

lemma best_node_scan_none:
  "(best_node_scan mn c order (None, bs) = (None, bs) \<and> getHealthyNodes mn order = [])
   \<or> (\<exists>pre r post. getHealthyNodes mn order = pre @ r # post
         \<and> best_node_scan mn c order (None, bs) = (Some r, score mn c r)
         \<and> (\<forall>p\<in>set pre. \<not> fgt (score mn c p) (score mn c r) \<and> score mn c p \<noteq> score mn c r)
         \<and> (\<forall>p\<in>set post. \<not> fgt (score mn c p) (score mn c r)))"
proof (induction order)
  case Nil
  then show ?case by (simp add: getHealthyNodes_def)
next
  case (Cons k rest)
  let ?cs = "getHealthyNodes mn rest"
  show ?case
  proof (cases "\<exists>r. map_of (nodes mn) k = Some r
                  \<and> MeshNode.Status (store mn r) = ''online'' \<and> Some r \<noteq> localNode mn")
    case False
    show ?thesis unfolding best_node_scan_skip [OF False] by (rule Cons.IH)
  next
    case True
    then obtain r0 where r0: "map_of (nodes mn) k = Some r0"
      "MeshNode.Status (store mn r0) = ''online''" "Some r0 \<noteq> localNode mn" by blast
    note g = best_node_scan_step(4) [OF r0]
    note s = best_node_scan_step(1) [OF r0]
    from best_node_scan_some [of mn c rest r0 "score mn c r0"] show ?thesis
    proof (elim disjE conjE exE)
      assume "best_node_scan mn c rest (Some r0, score mn c r0) = (Some r0, score mn c r0)"
        and "\<forall>p\<in>set ?cs. \<not> fgt (score mn c p) (score mn c r0)"
      then have "getHealthyNodes mn (k # rest) = [] @ r0 # ?cs
          \<and> best_node_scan mn c (k # rest) (None, bs) = (Some r0, score mn c r0)
          \<and> (\<forall>p\<in>set []. \<not> fgt (score mn c p) (score mn c r0) \<and> score mn c p \<noteq> score mn c r0)
          \<and> (\<forall>p\<in>set ?cs. \<not> fgt (score mn c p) (score mn c r0))"
        using g s by simp
      then show ?thesis by blast
    next
      fix pre r post
      assume a: "?cs = pre @ r # post"
        "best_node_scan mn c rest (Some r0, score mn c r0) = (Some r, score mn c r)"
        "fgt (score mn c r) (score mn c r0)"
        "\<forall>p\<in>set pre. \<not> fgt (score mn c p) (score mn c r) \<and> score mn c p \<noteq> score mn c r"
        "\<forall>p\<in>set post. \<not> fgt (score mn c p) (score mn c r)"
      have "\<not> fgt (score mn c r0) (score mn c r)" using a(3) by (rule fgt_asym)
      moreover have "score mn c r0 \<noteq> score mn c r" using a(3) by (rule fgt_neq)
      ultimately have "getHealthyNodes mn (k # rest) = (r0 # pre) @ r # post
          \<and> best_node_scan mn c (k # rest) (None, bs) = (Some r, score mn c r)
          \<and> (\<forall>p\<in>set (r0 # pre). \<not> fgt (score mn c p) (score mn c r) \<and> score mn c p \<noteq> score mn c r)
          \<and> (\<forall>p\<in>set post. \<not> fgt (score mn c p) (score mn c r))"
        using g s a by simp
      then show ?thesis by blast
    qed
  qed
qed

lemma GetBestNode_first_maximal:
  assumes "visits (nodes mn) order"
  shows "(GetBestNode mn order c = Inl NoAvailableNodes \<and> (\<forall>r. \<not> eligible mn r))
       \<or> (\<exists>pre r post. GetBestNode mn order c = Inr r \<and> eligible mn r
             \<and> (\<forall>p. eligible mn p \<longrightarrow> \<not> fgt (score mn c p) (score mn c r))
             \<and> getHealthyNodes mn order = pre @ r # post
             \<and> (\<forall>p\<in>set pre. score mn c p \<noteq> score mn c r))"
  using best_node_scan_none [of mn c order "Num 0"]
proof (elim disjE conjE exE)
  assume "best_node_scan mn c order (None, Num 0) = (None, Num 0)" and "getHealthyNodes mn order = []"
  then have "GetBestNode mn order c = Inl NoAvailableNodes" and "\<forall>r. \<not> eligible mn r"
    using getHealthyNodes_eligible [OF assms] by (auto simp: GetBestNode_def)
  then show ?thesis by blast
next
  fix pre r post
  assume g: "getHealthyNodes mn order = pre @ r # post"
    and b: "best_node_scan mn c order (None, Num 0) = (Some r, score mn c r)"
    and pre: "\<forall>p\<in>set pre. \<not> fgt (score mn c p) (score mn c r) \<and> score mn c p \<noteq> score mn c r"
    and post: "\<forall>p\<in>set post. \<not> fgt (score mn c p) (score mn c r)"
  have "GetBestNode mn order c = Inr r" using b by (simp add: GetBestNode_def)
  moreover have "eligible mn r" using getHealthyNodes_eligible [OF assms, of r] g by simp
  moreover have "\<not> fgt (score mn c p) (score mn c r)" if "eligible mn p" for p
  proof -
    from that have "p \<in> set (pre @ r # post)" using getHealthyNodes_eligible [OF assms, of p] g by simp
    then have "p \<in> set pre \<or> p = r \<or> p \<in> set post" by auto
    then show ?thesis using pre post fgt_irrefl [of "score mn c r"] by blast
  qed
  moreover have "\<forall>p\<in>set pre. score mn c p \<noteq> score mn c r" using pre by blast
  ultimately show ?thesis using g by blast
qed

text \<open>
  Scores of the example nodes, computed with the rounding of every operation. The
  scores of two nodes whose loads differ by \<open>2 ^ - 60\<close> are the same value, and the
  score of a node whose latency is minus one millisecond is the positive infinity.
\<close>

lemmas float_eval = round64_def ulp_def ilog2.simps nearest_even_def pow2_def Let_def

lemmas score_eval = mesh_example_defs calculateNodeScore_def spec_score_def Milliseconds_def
  Millisecond_def upt_rec float_eval

lemma round64_examples:
  "round64 (1 / 10) = Num (3602879701896397 / 36028797018963968)"
  "round64 100 = Num 100"
  "round64 (2 ^ 53 + 1) = Num (2 ^ 53)"
  "round64 (2 ^ 53 + 3) = Num (2 ^ 53 + 4)"
  "round64 (- (1 / 3)) = Num (- (6004799503160661 / 18014398509481984))"
  by (simp_all add: float_eval)

lemma mesh_regions_scores:
  "calculateNodeScore (store mesh_regions 1) ''eu'' = Num (7609896760060201 / 70368744177664)"
  "calculateNodeScore (store mesh_regions 2) ''eu'' = Num (6567642837272613 / 35184372088832)"
  "calculateNodeScore (store mesh_regions 1) [] = Num (7609896760060201 / 70368744177664)"
  "calculateNodeScore (store mesh_regions 2) [] = Num (4808424232831013 / 35184372088832)"
  "spec_score (store mesh_regions 1) [] = Num (1391041746117925 / 8796093022208)"
  "spec_score (store mesh_regions 2) [] = Num (4808424232831013 / 35184372088832)"
  by (simp_all add: mesh_regions_def score_eval)

lemma mesh_close_scores:
  "calculateNodeScore (store mesh_close 1) [] = Num (2099585518243801 / 17592186044416)"
  "calculateNodeScore (store mesh_close 2) [] = Num (2099585518243801 / 17592186044416)"
  by (simp_all add: mesh_close_def score_eval)

lemma mesh_negative_scores:
  "calculateNodeScore (store mesh_negative 1) [] = PInf"
  "calculateNodeScore (store mesh_negative 2) [] = Num (8801370678021325 / 17592186044416)"
  by (simp_all add: mesh_negative_def score_eval)

lemma GetBestNode_rounded_tie:
  "GetBestNode mesh_close [''n1'', ''n2'', ''local''] [] = Inr 1
   \<and> GetBestNode mesh_close [''n2'', ''n1'', ''local''] [] = Inr 2"
  by (simp add: GetBestNode_def mesh_close_def score_eval)

lemma GetBestNode_infinite_score:
  "GetBestNode mesh_negative [''n1'', ''n2'', ''local''] [] = Inr 1
   \<and> GetBestNode mesh_negative [''n2'', ''n1'', ''local''] [] = Inr 1"
  by (simp add: GetBestNode_def mesh_negative_def score_eval)

lemma mesh_regions_best:
  "GetBestNode mesh_regions [''n1'', ''n2'', ''local''] ''eu'' = Inr 2"
  "GetBestNode mesh_regions [''local'', ''n2'', ''n1''] ''eu'' = Inr 2"
  "GetBestNode mesh_regions [''n1'', ''n2'', ''local''] [] = Inr 2"
  "GetBestNode mesh_regions [''n2'', ''n1'', ''local''] [] = Inr 2"
  by (simp_all add: GetBestNode_def mesh_regions_def score_eval)

lemma mesh_regions_healthy:
  "getHealthyNodes mesh_regions [''n1'', ''n2'', ''local''] = [1, 2]"
  "getHealthyNodes mesh_regions [''local'', ''n2'', ''n1''] = [2, 1]"
  by (simp_all add: getHealthyNodes_def mesh_regions_def mesh_example_defs upt_rec)

lemma mesh_regions_visits:
  "visits (nodes mesh_regions) [''n1'', ''n2'', ''local'']"
  "visits (nodes mesh_regions) [''local'', ''n2'', ''n1'']"
  "visits (nodes mesh_regions) [''n2'', ''n1'', ''local'']"
  unfolding mesh_regions_def a_mesh_visits_3 by auto

text \<open>
  C6, as the code has it. \<open>GetBestNode\<close> considers exactly the registered nodes that are
  online and not the local node; the score of a node is computed in \<open>float64\<close> as
  \<open>1000 / (milliseconds + 1) * 0.4\<close> plus \<open>(1 - loadScore) * 0.3\<close>, plus 100 when it
  is online, plus 50 when the criteria is not empty and equals its region; the result
  is an eligible node whose score no eligible node's score exceeds, and the error
  \<open>NoAvailableNodes\<close> when no node is eligible.
\<close>

theorem GetBestNode_scores_and_maximises:
  assumes "visits (nodes mn) order"
  shows "(\<forall>node. calculateNodeScore node criteria =
            bonus (criteria \<noteq> [] \<and> MeshNode.Region node = criteria) 50
              (bonus (MeshNode.Status node = ''online'') 100
                (fadd
                  (fadd (Num 0)
                    (fmul (fdiv (Num 1000)
                             (round64 (of_int (Milliseconds (MeshNode.Latency node) + 1))))
                          (round64 (4 / 10))))
                  (fmul (fsub (Num 1) (Num (LoadScore node))) (round64 (3 / 10))))))
     \<and> ((GetBestNode mn order criteria = Inl NoAvailableNodes \<and> (\<forall>r. \<not> eligible mn r))
        \<or> (\<exists>r. GetBestNode mn order criteria = Inr r \<and> eligible mn r
              \<and> (\<forall>p. eligible mn p \<longrightarrow>
                     \<not> fgt (calculateNodeScore (store mn p) criteria)
                            (calculateNodeScore (store mn r) criteria))))"
proof (intro conjI allI)
  fix node
  show "calculateNodeScore node criteria =
            bonus (criteria \<noteq> [] \<and> MeshNode.Region node = criteria) 50
              (bonus (MeshNode.Status node = ''online'') 100
                (fadd
                  (fadd (Num 0)
                    (fmul (fdiv (Num 1000)
                             (round64 (of_int (Milliseconds (MeshNode.Latency node) + 1))))
                          (round64 (4 / 10))))
                  (fmul (fsub (Num 1) (Num (LoadScore node))) (round64 (3 / 10)))))"
    unfolding calculateNodeScore_def bonus_def Let_def by (rule refl)
next
  from GetBestNode_first_maximal [OF assms, of criteria]
  show "(GetBestNode mn order criteria = Inl NoAvailableNodes \<and> (\<forall>r. \<not> eligible mn r))
        \<or> (\<exists>r. GetBestNode mn order criteria = Inr r \<and> eligible mn r
              \<and> (\<forall>p. eligible mn p \<longrightarrow>
                     \<not> fgt (calculateNodeScore (store mn p) criteria)
                            (calculateNodeScore (store mn r) criteria)))"
    unfolding score_def by blast
qed

theorem GetBestNode_scores_and_maximises_witness:
  "visits (nodes mesh_regions) [''n1'', ''n2'', ''local'']
   \<and> GetBestNode mesh_regions [''n1'', ''n2'', ''local''] ''eu'' = Inr 2
   \<and> calculateNodeScore (store mesh_regions 1) ''eu'' = Num (7609896760060201 / 70368744177664)
   \<and> calculateNodeScore (store mesh_regions 2) ''eu'' = Num (6567642837272613 / 35184372088832)
   \<and> ((GetBestNode mesh_regions [''n1'', ''n2'', ''local''] ''eu'' = Inl NoAvailableNodes
          \<and> (\<forall>r. \<not> eligible mesh_regions r))
        \<or> (\<exists>r. GetBestNode mesh_regions [''n1'', ''n2'', ''local''] ''eu'' = Inr r
              \<and> eligible mesh_regions r
              \<and> (\<forall>p. eligible mesh_regions p \<longrightarrow>
                     \<not> fgt (calculateNodeScore (store mesh_regions p) ''eu'')
                            (calculateNodeScore (store mesh_regions r) ''eu''))))"
proof -
  note v = mesh_regions_visits(1)
  from GetBestNode_scores_and_maximises [OF v, of "''eu''"]
  have "(GetBestNode mesh_regions [''n1'', ''n2'', ''local''] ''eu'' = Inl NoAvailableNodes
          \<and> (\<forall>r. \<not> eligible mesh_regions r))
        \<or> (\<exists>r. GetBestNode mesh_regions [''n1'', ''n2'', ''local''] ''eu'' = Inr r
              \<and> eligible mesh_regions r
              \<and> (\<forall>p. eligible mesh_regions p \<longrightarrow>
                     \<not> fgt (calculateNodeScore (store mesh_regions p) ''eu'')
                            (calculateNodeScore (store mesh_regions r) ''eu'')))"
    by (rule conjunct2)
  with v mesh_regions_best(1) mesh_regions_scores(1,2) show ?thesis by (intro conjI)
qed

text \<open>
  C6 as stated gives 50 to every node whose region equals the criteria, also for the
  empty criteria. With the empty criteria, node 1 (no region, 50 ms) has a score in the
  code that differs from the stated one, and \<open>GetBestNode\<close> returns node 2 (region
  \<open>eu\<close>, 10 ms) in either visiting order, whose stated score is below that of node 1:
  the node returned is not maximal for the score as stated.
\<close>

theorem GetBestNode_spec_score_counterexample:
  "eligible mesh_regions 1
   \<and> calculateNodeScore (store mesh_regions 1) [] \<noteq> spec_score (store mesh_regions 1) []
   \<and> visits (nodes mesh_regions) [''n1'', ''n2'', ''local'']
   \<and> visits (nodes mesh_regions) [''n2'', ''n1'', ''local'']
   \<and> GetBestNode mesh_regions [''n1'', ''n2'', ''local''] [] = Inr 2
   \<and> GetBestNode mesh_regions [''n2'', ''n1'', ''local''] [] = Inr 2
   \<and> fgt (spec_score (store mesh_regions 1) []) (spec_score (store mesh_regions 2) [])"
proof -
  have e: "eligible mesh_regions 1"
    unfolding eligible_def
  proof (intro conjI)
    have "map_of (nodes mesh_regions) ''n1'' = Some 1"
      by (simp add: mesh_regions_def mesh_example_defs upt_rec)
    then show "\<exists>k. map_of (nodes mesh_regions) k = Some 1" by blast
  qed (simp_all add: mesh_regions_def mesh_example_defs)
  have d: "calculateNodeScore (store mesh_regions 1) [] \<noteq> spec_score (store mesh_regions 1) []"
    unfolding mesh_regions_scores by simp
  have f: "fgt (spec_score (store mesh_regions 1) []) (spec_score (store mesh_regions 2) [])"
    unfolding mesh_regions_scores by simp
  show ?thesis
    using e d mesh_regions_visits(1,3) mesh_regions_best(3,4) f by (intro conjI)
qed

text \<open>
  C5, as the code has it. The node \<open>GetBestNode\<close> returns depends on the snapshot and
  on the order in which the map is visited, which Go does not fix. For one snapshot and
  one criteria, two calls either both fail, no node being eligible, or both return an
  eligible node whose score no eligible node's score exceeds; each returns the first
  node, in its visiting order, among the eligible nodes that have the score of the node
  it returns; the two scores are the same value unless one is NaN; and the two nodes
  are the same whenever one eligible node's score exceeds the score of every other
  eligible node.
\<close>

theorem GetBestNode_same_score_any_order:
  assumes "visits (nodes mn) order1" and "visits (nodes mn) order2"
  shows "(GetBestNode mn order1 criteria = Inl NoAvailableNodes
            \<and> GetBestNode mn order2 criteria = Inl NoAvailableNodes
            \<and> (\<forall>r. \<not> eligible mn r))
       \<or> (\<exists>r1 r2 pre1 post1 pre2 post2.
            GetBestNode mn order1 criteria = Inr r1 \<and> GetBestNode mn order2 criteria = Inr r2
            \<and> eligible mn r1 \<and> eligible mn r2
            \<and> (\<forall>p. eligible mn p \<longrightarrow>
                   \<not> fgt (calculateNodeScore (store mn p) criteria)
                          (calculateNodeScore (store mn r1) criteria)
                   \<and> \<not> fgt (calculateNodeScore (store mn p) criteria)
                            (calculateNodeScore (store mn r2) criteria))
            \<and> getHealthyNodes mn order1 = pre1 @ r1 # post1
            \<and> (\<forall>p\<in>set pre1. calculateNodeScore (store mn p) criteria
                                \<noteq> calculateNodeScore (store mn r1) criteria)
            \<and> getHealthyNodes mn order2 = pre2 @ r2 # post2
            \<and> (\<forall>p\<in>set pre2. calculateNodeScore (store mn p) criteria
                                \<noteq> calculateNodeScore (store mn r2) criteria)
            \<and> (calculateNodeScore (store mn r1) criteria \<noteq> NaN
                 \<and> calculateNodeScore (store mn r2) criteria \<noteq> NaN
                \<longrightarrow> calculateNodeScore (store mn r1) criteria
                      = calculateNodeScore (store mn r2) criteria)
            \<and> (\<forall>r. eligible mn r
                     \<and> (\<forall>p. eligible mn p \<and> p \<noteq> r \<longrightarrow>
                            fgt (calculateNodeScore (store mn r) criteria)
                                (calculateNodeScore (store mn p) criteria))
                   \<longrightarrow> r1 = r \<and> r2 = r))"
  using GetBestNode_first_maximal [OF assms(1), of criteria]
    GetBestNode_first_maximal [OF assms(2), of criteria]
proof (elim disjE conjE exE)
  fix pre1 r1 post1 pre2 r2 post2
  assume a: "GetBestNode mn order1 criteria = Inr r1" "eligible mn r1"
      "\<forall>p. eligible mn p \<longrightarrow> \<not> fgt (score mn criteria p) (score mn criteria r1)"
      "getHealthyNodes mn order1 = pre1 @ r1 # post1"
      "\<forall>p\<in>set pre1. score mn criteria p \<noteq> score mn criteria r1"
    and b: "GetBestNode mn order2 criteria = Inr r2" "eligible mn r2"
      "\<forall>p. eligible mn p \<longrightarrow> \<not> fgt (score mn criteria p) (score mn criteria r2)"
      "getHealthyNodes mn order2 = pre2 @ r2 # post2"
      "\<forall>p\<in>set pre2. score mn criteria p \<noteq> score mn criteria r2"
  have m: "\<forall>p. eligible mn p \<longrightarrow>
             \<not> fgt (score mn criteria p) (score mn criteria r1)
             \<and> \<not> fgt (score mn criteria p) (score mn criteria r2)"
    using a(3) b(3) by blast
  have n: "score mn criteria r1 \<noteq> NaN \<and> score mn criteria r2 \<noteq> NaN
             \<longrightarrow> score mn criteria r1 = score mn criteria r2"
    using a(2) b(2) m fgt_total [of "score mn criteria r1" "score mn criteria r2"] by blast
  have u: "\<forall>r. eligible mn r
                \<and> (\<forall>p. eligible mn p \<and> p \<noteq> r \<longrightarrow> fgt (score mn criteria r) (score mn criteria p))
              \<longrightarrow> r1 = r \<and> r2 = r"
    using a(2) b(2) m by blast
  have "GetBestNode mn order1 criteria = Inr r1 \<and> GetBestNode mn order2 criteria = Inr r2
      \<and> eligible mn r1 \<and> eligible mn r2
      \<and> (\<forall>p. eligible mn p \<longrightarrow>
             \<not> fgt (score mn criteria p) (score mn criteria r1)
             \<and> \<not> fgt (score mn criteria p) (score mn criteria r2))
      \<and> getHealthyNodes mn order1 = pre1 @ r1 # post1
      \<and> (\<forall>p\<in>set pre1. score mn criteria p \<noteq> score mn criteria r1)
      \<and> getHealthyNodes mn order2 = pre2 @ r2 # post2
      \<and> (\<forall>p\<in>set pre2. score mn criteria p \<noteq> score mn criteria r2)
      \<and> (score mn criteria r1 \<noteq> NaN \<and> score mn criteria r2 \<noteq> NaN
           \<longrightarrow> score mn criteria r1 = score mn criteria r2)
      \<and> (\<forall>r. eligible mn r
                \<and> (\<forall>p. eligible mn p \<and> p \<noteq> r \<longrightarrow> fgt (score mn criteria r) (score mn criteria p))
              \<longrightarrow> r1 = r \<and> r2 = r)"
    using a(1,2,4,5) b(1,2,4,5) m n u by (intro conjI)
  then show ?thesis unfolding score_def by blast
qed auto

lemma mesh_regions_eligible: "eligible mesh_regions p \<longleftrightarrow> p = 1 \<or> p = 2"
  using getHealthyNodes_eligible [OF mesh_regions_visits(1), of p]
  unfolding mesh_regions_healthy by auto

theorem GetBestNode_same_score_any_order_witness:
  "visits (nodes mesh_regions) [''n1'', ''n2'', ''local'']
   \<and> visits (nodes mesh_regions) [''local'', ''n2'', ''n1'']
   \<and> getHealthyNodes mesh_regions [''n1'', ''n2'', ''local''] = [1, 2]
   \<and> getHealthyNodes mesh_regions [''local'', ''n2'', ''n1''] = [2, 1]
   \<and> fgt (calculateNodeScore (store mesh_regions 2) ''eu'')
          (calculateNodeScore (store mesh_regions 1) ''eu'')
   \<and> GetBestNode mesh_regions [''n1'', ''n2'', ''local''] ''eu'' = Inr 2
   \<and> GetBestNode mesh_regions [''local'', ''n2'', ''n1''] ''eu'' = Inr 2
   \<and> (\<exists>r1 r2. GetBestNode mesh_regions [''n1'', ''n2'', ''local''] ''eu'' = Inr r1
         \<and> GetBestNode mesh_regions [''local'', ''n2'', ''n1''] ''eu'' = Inr r2
         \<and> r1 = 2 \<and> r2 = 2
         \<and> calculateNodeScore (store mesh_regions r1) ''eu''
             = calculateNodeScore (store mesh_regions r2) ''eu'')"
proof -
  note v1 = mesh_regions_visits(1) and v2 = mesh_regions_visits(2)
  have f: "fgt (calculateNodeScore (store mesh_regions 2) ''eu'')
               (calculateNodeScore (store mesh_regions 1) ''eu'')"
    unfolding mesh_regions_scores by simp
  have e: "eligible mesh_regions 2" by (simp add: mesh_regions_eligible)
  have u: "\<forall>p. eligible mesh_regions p \<and> p \<noteq> 2 \<longrightarrow>
             fgt (calculateNodeScore (store mesh_regions 2) ''eu'')
                 (calculateNodeScore (store mesh_regions p) ''eu'')"
    using f by (auto simp: mesh_regions_eligible)
  from GetBestNode_same_score_any_order [OF v1 v2, of "''eu''"] e
  obtain r1 r2 where g: "GetBestNode mesh_regions [''n1'', ''n2'', ''local''] ''eu'' = Inr r1"
      "GetBestNode mesh_regions [''local'', ''n2'', ''n1''] ''eu'' = Inr r2"
    and s: "\<forall>r. eligible mesh_regions r
                \<and> (\<forall>p. eligible mesh_regions p \<and> p \<noteq> r \<longrightarrow>
                       fgt (calculateNodeScore (store mesh_regions r) ''eu'')
                           (calculateNodeScore (store mesh_regions p) ''eu''))
              \<longrightarrow> r1 = r \<and> r2 = r"
    by blast
  from s e u have "r1 = 2 \<and> r2 = 2" by blast
  with g have "\<exists>r1 r2. GetBestNode mesh_regions [''n1'', ''n2'', ''local''] ''eu'' = Inr r1
         \<and> GetBestNode mesh_regions [''local'', ''n2'', ''n1''] ''eu'' = Inr r2
         \<and> r1 = 2 \<and> r2 = 2
         \<and> calculateNodeScore (store mesh_regions r1) ''eu''
             = calculateNodeScore (store mesh_regions r2) ''eu''"
    by blast
  with v1 v2 mesh_regions_healthy f mesh_regions_best(1,2) show ?thesis by (intro conjI)
qed

text \<open>
  C5 as stated (the same node also in case of a tie) fails: nodes 1 and 2 of
  \<open>mesh_pair\<close> have the same status, latency, load and region; visiting \<open>n1\<close> first
  returns node 1 and visiting \<open>n2\<close> first returns node 2.
\<close>

theorem GetBestNode_tie_counterexample:
  "visits (nodes mesh_pair) [''n1'', ''n2'', ''local'']
   \<and> visits (nodes mesh_pair) [''n2'', ''n1'', ''local'']
   \<and> store mesh_pair 1 = (store mesh_pair 2)\<lparr>ID := ''n1'', MeshNode.Name := ''n1'', MeshIP := ''10.99.0.2''\<rparr>
   \<and> GetBestNode mesh_pair [''n1'', ''n2'', ''local''] [] = Inr 1
   \<and> GetBestNode mesh_pair [''n2'', ''n1'', ''local''] [] = Inr 2"
proof -
  have v1: "visits (nodes mesh_pair) [''n1'', ''n2'', ''local'']"
    unfolding mesh_pair_def a_mesh_visits_3 by auto
  have v2: "visits (nodes mesh_pair) [''n2'', ''n1'', ''local'']"
    unfolding mesh_pair_def a_mesh_visits_3 by auto
  have n: "store mesh_pair 1 = (store mesh_pair 2)\<lparr>ID := ''n1'', MeshNode.Name := ''n1'', MeshIP := ''10.99.0.2''\<rparr>"
    by (simp add: mesh_pair_def mesh_example_defs)
  have g1: "GetBestNode mesh_pair [''n1'', ''n2'', ''local''] [] = Inr 1"
    by (simp add: GetBestNode_def mesh_pair_def score_eval)
  have g2: "GetBestNode mesh_pair [''n2'', ''n1'', ''local''] [] = Inr 2"
    by (simp add: GetBestNode_def mesh_pair_def score_eval)
  show ?thesis using v1 v2 n g1 g2 by (intro conjI)
qed
section \<open>Address allocation\<close>

subsection \<open>The next address\<close>

lemma ip_val_Nil: "ip_val [] = 0"
  by (simp add: ip_val_def)

lemma ip_val_snoc: "ip_val (bs @ [b]) = ip_val bs * 256 + unat b"
  by (simp add: ip_val_def)

lemma unat_byte_less: "unat (b :: byte) < 256"
  using unsigned_less [of b, where 'a = nat] by simp

lemma ip_val_bound: "ip_val bs < 256 ^ length bs"
proof (induction bs rule: rev_induct)
  case Nil
  then show ?case by (simp add: ip_val_Nil)
next
  case (snoc b bs)
  have "unat b < 256" by (rule unat_byte_less)
  moreover have "ip_val bs + 1 \<le> 256 ^ length bs" using snoc by simp
  then have "(ip_val bs + 1) * 256 \<le> 256 ^ length bs * 256" by (rule mult_le_mono1)
  ultimately show ?case by (simp add: ip_val_snoc)
qed

lemma nextIP_loop_append:
  "k \<le> length ys \<Longrightarrow> nextIP_loop (ys @ suf) k = nextIP_loop ys k @ suf"
proof (induction k arbitrary: ys)
  case 0
  then show ?case by simp
next
  case (Suc i)
  then have i: "i < length ys" by simp
  have u: "(ys @ suf)[i := (ys @ suf) ! i + 1] = ys[i := ys ! i + 1] @ suf"
    using i by (simp add: list_update_append1 nth_append)
  have n: "(ys[i := ys ! i + 1] @ suf) ! i = ys[i := ys ! i + 1] ! i"
    using i by (simp add: nth_append)
  have "i \<le> length (ys[i := ys ! i + 1])" using i by simp
  from Suc.IH [OF this] show ?case
    by (simp add: Let_def u n)
qed

lemma nextIP_snoc:
  "nextIP (ys @ [b]) = (if 0 < b + 1 then ys @ [b + 1] else nextIP ys @ [0])"
proof -
  have u: "(ys @ [b])[length ys := (ys @ [b]) ! length ys + 1] = ys @ [b + 1]" by simp
  show ?thesis
  proof (cases "0 < b + 1")
    case True
    then show ?thesis by (simp add: nextIP_def Let_def)
  next
    case False
    then have z: "b + 1 = 0" by (simp add: word_gt_0)
    have "nextIP (ys @ [b]) = nextIP_loop (ys @ [b + 1]) (length ys)"
      using False by (simp add: nextIP_def Let_def)
    also have "\<dots> = nextIP_loop ys (length ys) @ [b + 1]"
      by (rule nextIP_loop_append) simp
    finally show ?thesis using False z by (simp add: nextIP_def)
  qed
qed

lemma nextIP_Nil: "nextIP [] = []"
  by (simp add: nextIP_def)

lemma length_nextIP: "length (nextIP ip) = length ip"
  by (induction ip rule: rev_induct) (simp_all add: nextIP_Nil nextIP_snoc)

text \<open>
  \<open>nextIP\<close> adds one to the number the address stands for, wrapping around after the
  last address of its length.
\<close>

lemma ip_val_nextIP: "ip_val (nextIP ip) = (ip_val ip + 1) mod 256 ^ length ip"
proof (induction ip rule: rev_induct)
  case Nil
  then show ?case by (simp add: nextIP_Nil ip_val_Nil)
next
  case (snoc b bs)
  show ?case
  proof (cases "0 < b + 1")
    case True
    then have "b + 1 \<noteq> 0" by (simp add: word_gt_0)
    then have "1 + b \<noteq> 0" by (simp add: add.commute)
    then have "unat (1 + b) = Suc (unat b)" by (rule unatSuc)
    then have s: "unat (b + 1) = Suc (unat b)" by (simp add: add.commute)
    have "ip_val (bs @ [b + 1]) < 256 ^ length (bs @ [b + 1])" by (rule ip_val_bound)
    then have "ip_val bs * 256 + unat b + 1 < 256 ^ Suc (length bs)"
      by (simp add: ip_val_snoc s)
    then show ?thesis using True by (simp add: nextIP_snoc ip_val_snoc s)
  next
    case False
    then have z: "b + 1 = 0" by (simp add: word_gt_0)
    then have "unat (b + 1) = 0" by simp
    then have "(unat b + 1) mod 256 = 0" by (simp add: unat_word_ariths)
    moreover have "unat b < 256" by (rule unat_byte_less)
    ultimately have b: "unat b = 255" by (simp add: mod_eq_0_iff_dvd) presburger
    have "(ip_val bs * 256 + 255 + 1) mod (256 ^ length bs * 256)
            = ((ip_val bs + 1) * 256) mod (256 ^ length bs * 256)" by (simp add: algebra_simps)
    also have "\<dots> = ((ip_val bs + 1) mod 256 ^ length bs) * 256"
      by (rule mult_mod_left [symmetric, THEN trans]) simp
    finally show ?thesis using False snoc by (simp add: nextIP_snoc ip_val_snoc b mult.commute)
  qed
qed

lemma length_funpow_nextIP: "length ((nextIP ^^ j) ip) = length ip"
  by (induction j) (simp_all add: length_nextIP)

lemma ip_val_funpow_nextIP: "ip_val ((nextIP ^^ j) ip) = (ip_val ip + j) mod 256 ^ length ip"
proof (induction j)
  case 0
  then show ?case using ip_val_bound [of ip] by simp
next
  case (Suc j)
  show ?case
    by (simp add: ip_val_nextIP length_funpow_nextIP Suc mod_Suc_eq)
qed

subsection \<open>The text of an address\<close>

lemma digit_simps:
  "digit 0 = CHR ''0''" "digit (Suc 0) = CHR ''1''" "digit 2 = CHR ''2''" "digit 3 = CHR ''3''"
  "digit 4 = CHR ''4''" "digit 5 = CHR ''5''" "digit 6 = CHR ''6''" "digit 7 = CHR ''7''"
  "digit 8 = CHR ''8''" "digit 9 = CHR ''9''"
  by (simp_all add: digit_def char_of_eq_iff)

lemma digit_inj: "m < 10 \<Longrightarrow> n < 10 \<Longrightarrow> digit m = digit n \<Longrightarrow> m = n"
  by (simp add: digit_def)

lemma digit_not_dot: "n < 10 \<Longrightarrow> digit n \<noteq> CHR ''.''"
  by (simp add: digit_def char_of_eq_iff take_bit_eq_mod)

lemma dot_not_digit: "n < 10 \<Longrightarrow> CHR ''.'' \<noteq> digit n"
  using digit_not_dot [of n] by auto

lemma dot_notin_ubtoa: "CHR ''.'' \<notin> set (ubtoa b)"
proof -
  have b: "unat b < 256" by (rule unat_byte_less)
  have d: "unat b div 100 < 10" "unat b div 10 mod 10 < 10" "unat b mod 10 < 10"
    using b by simp_all
  have e: "unat b div 10 < 10" if "unat b < 100" using that by simp
  show ?thesis
  proof (cases "unat b < 10")
    case True
    then show ?thesis by (simp add: ubtoa_def Let_def dot_not_digit)
  next
    case False
    show ?thesis
    proof (cases "unat b < 100")
      case True
      then show ?thesis using False e d by (simp add: ubtoa_def Let_def dot_not_digit)
    next
      case f: False
      then show ?thesis using False d by (simp add: ubtoa_def Let_def dot_not_digit)
    qed
  qed
qed

lemma ubtoa_inj:
  assumes "ubtoa a = ubtoa b"
  shows "a = b"
proof -
  let ?m = "unat a" and ?n = "unat b"
  have m: "?m < 256" and n: "?n < 256" by (rule unat_byte_less)+
  have "?m = ?n"
  proof (cases "?m < 10")
    case True
    then have "?n < 10" using assms by (auto simp: ubtoa_def Let_def split: if_splits)
    then show ?thesis using assms True by (auto simp: ubtoa_def Let_def dest: digit_inj)
  next
    case False
    show ?thesis
    proof (cases "?m < 100")
      case True
      then have n2: "\<not> ?n < 10" "?n < 100"
        using assms False by (auto simp: ubtoa_def Let_def split: if_splits)
      then have "digit (?m div 10) = digit (?n div 10)" "digit (?m mod 10) = digit (?n mod 10)"
        using assms False True by (auto simp: ubtoa_def Let_def)
      then have "?m div 10 = ?n div 10" "?m mod 10 = ?n mod 10"
        using True n2 by (auto intro: digit_inj)
      then show ?thesis by (metis div_mult_mod_eq)
    next
      case m3: False
      then have n3: "\<not> ?n < 10" "\<not> ?n < 100"
        using assms False by (auto simp: ubtoa_def Let_def split: if_splits)
      then have "digit (?m div 100) = digit (?n div 100)"
        "digit (?m div 10 mod 10) = digit (?n div 10 mod 10)"
        "digit (?m mod 10) = digit (?n mod 10)"
        using assms False m3 by (auto simp: ubtoa_def Let_def)
      moreover have "?m div 100 < 10" "?n div 100 < 10" using m n by simp_all
      ultimately have h: "?m div 100 = ?n div 100" and t: "?m div 10 mod 10 = ?n div 10 mod 10"
        and u: "?m mod 10 = ?n mod 10"
        by (auto intro: digit_inj)
      have "?m div 10 div 10 = ?m div (10 * 10)" "?n div 10 div 10 = ?n div (10 * 10)"
        by (simp_all only: div_mult2_eq)
      then have "?m div 10 div 10 = ?n div 10 div 10" using h by simp
      then have "?m div 10 = ?n div 10" using t by (metis div_mult_mod_eq)
      then show ?thesis using u by (metis div_mult_mod_eq)
    qed
  qed
  then show ?thesis by (simp add: word_unat_eq_iff)
qed

lemma split_at_first:
  assumes "x \<notin> set xs" and "x \<notin> set xs'" and "xs @ x # ys = xs' @ x # ys'"
  shows "xs = xs' \<and> ys = ys'"
  using assms
proof (induction xs arbitrary: xs')
  case Nil
  then show ?case by (cases xs') auto
next
  case (Cons a xs)
  then show ?case by (cases xs') auto
qed

text \<open>
  Two addresses of the same length with the same text are the same address.
\<close>

lemma IP_String_inj:
  assumes "length xs = length ys" and "IP_String xs = IP_String ys"
  shows "xs = ys"
  using assms
proof (induction xs ys rule: list_induct2)
  case Nil
  then show ?case by simp
next
  case (Cons x xs y ys)
  show ?case
  proof (cases xs)
    case Nil
    then have "ys = []" using Cons.hyps by simp
    then show ?thesis using Cons.prems Nil by (auto dest: ubtoa_inj)
  next
    case (Cons x' xs')
    then obtain y' ys' where ys: "ys = y' # ys'" using Cons.hyps by (cases ys) auto
    have e: "ubtoa x @ CHR ''.'' # IP_String xs = ubtoa y @ CHR ''.'' # IP_String ys"
      using Cons.prems Cons ys by simp
    from split_at_first [OF dot_notin_ubtoa dot_notin_ubtoa e]
    have u: "ubtoa x = ubtoa y" and r: "IP_String xs = IP_String ys" by simp_all
    from u have "x = y" by (rule ubtoa_inj)
    moreover from r have "xs = ys" by (rule Cons.IH)
    ultimately show ?thesis by simp
  qed
qed

lemma IP_String_eq_bytes:
  assumes "IP_String ip = IP_String [a, b, c, d]" and "length ip = 4"
  shows "ip = [a, b, c, d]"
  using assms by (intro IP_String_inj) simp_all

subsection \<open>The scan\<close>

lemma isIPUsed_loop_iff:
  "isIPUsed_loop st m ip \<longleftrightarrow> ip \<in> (\<lambda>r. MeshIP (st r)) ` snd ` set m"
  by (induction m) auto

lemma isIPUsed_iff: "isIPUsed mn ip \<longleftrightarrow> ip \<in> used_addresses mn"
  by (simp add: isIPUsed_def isIPUsed_loop_iff used_addresses_def registered_def)

lemma card_used_addresses: "card (used_addresses mn) \<le> length (nodes mn)"
proof -
  have "card (used_addresses mn) \<le> card (registered mn)"
    unfolding used_addresses_def by (rule card_image_le) (simp add: registered_def)
  also have "\<dots> \<le> card (set (nodes mn))"
    unfolding registered_def by (rule card_image_le) simp
  also have "\<dots> \<le> length (nodes mn)" by (rule card_length)
  finally show ?thesis .
qed

lemma assign_scan_finds:
  assumes "\<forall>i<j. isIPUsed mn (IP_String ((nextIP ^^ Suc i) ip))"
    and "\<not> isIPUsed mn (IP_String ((nextIP ^^ Suc j) ip))"
  shows "assign_scan mn ip = Some (IP_String ((nextIP ^^ Suc j) ip))"
  using assms
proof (induction j arbitrary: ip)
  case 0
  then show ?case by (subst assign_scan.simps) simp
next
  case (Suc j)
  have "isIPUsed mn (IP_String ((nextIP ^^ Suc 0) ip))" using Suc.prems(1) by blast
  then have u: "isIPUsed mn (IP_String (nextIP ip))" by simp
  have a: "\<forall>i<j. isIPUsed mn (IP_String ((nextIP ^^ Suc i) (nextIP ip)))"
  proof (intro allI impI)
    fix i assume "i < j"
    then have "Suc i < Suc j" by simp
    with Suc.prems(1) have "isIPUsed mn (IP_String ((nextIP ^^ Suc (Suc i)) ip))" by blast
    then show "isIPUsed mn (IP_String ((nextIP ^^ Suc i) (nextIP ip)))"
      by (simp add: funpow_swap1)
  qed
  have b: "\<not> isIPUsed mn (IP_String ((nextIP ^^ Suc j) (nextIP ip)))"
    using Suc.prems(2) by (simp add: funpow_swap1)
  have "assign_scan mn ip = assign_scan mn (nextIP ip)"
    using u by (subst assign_scan.simps) simp
  also have "\<dots> = Some (IP_String ((nextIP ^^ Suc j) (nextIP ip)))"
    using a b by (rule Suc.IH)
  finally show ?case by (simp add: funpow_swap1)
qed

lemma add_mod_inj:
  fixes v i j n :: nat
  assumes "i < n" and "j < n" and "(v + i) mod n = (v + j) mod n"
  shows "i = j"
proof -
  have *: "a = b" if "a \<le> b" "b < n" "(v + a) mod n = (v + b) mod n" for a b
  proof -
    have "n dvd (v + b) - (v + a)"
      using that(1,3) by (subst mod_eq_dvd_iff_nat [symmetric]) simp_all
    then have "n dvd b - a" by simp
    moreover have "b - a < n" using that(2) by simp
    ultimately have "b - a = 0" by (meson dvd_imp_le not_less zero_less_iff_neq_zero)
    then show ?thesis using that(1) by simp
  qed
  show ?thesis
  proof (cases "i \<le> j")
    case True
    then show ?thesis using * [of i j] assms by simp
  next
    case False
    then show ?thesis using * [of j i] assms by simp
  qed
qed

lemma candidates_distinct:
  assumes "i < 256 ^ length ip" and "j < 256 ^ length ip"
    and "IP_String ((nextIP ^^ i) ip) = IP_String ((nextIP ^^ j) ip)"
  shows "i = j"
proof -
  have "(nextIP ^^ i) ip = (nextIP ^^ j) ip"
    using assms(3) by (intro IP_String_inj) (simp_all add: length_funpow_nextIP)
  then have "ip_val ((nextIP ^^ i) ip) = ip_val ((nextIP ^^ j) ip)" by simp
  then have "(ip_val ip + i) mod 256 ^ length ip = (ip_val ip + j) mod 256 ^ length ip"
    by (simp only: ip_val_funpow_nextIP)
  with assms(1,2) show ?thesis by (rule add_mod_inj)
qed

text \<open>
  The scan returns: with \<open>m\<close> registered nodes, one of the first \<open>m + 1\<close> addresses
  after the start is unused, and the first unused one is what the scan returns. (This
  needs fewer registered nodes than there are addresses of that length; when every
  address is in use the loop of the source never ends.)
\<close>

lemma assign_scan_returns:
  assumes "length (nodes mn) < 256 ^ length ip"
  shows "\<exists>j\<le>length (nodes mn).
           assign_scan mn ip = Some (IP_String ((nextIP ^^ Suc j) ip))
           \<and> IP_String ((nextIP ^^ Suc j) ip) \<notin> used_addresses mn"
proof -
  let ?m = "length (nodes mn)"
  let ?c = "\<lambda>i. IP_String ((nextIP ^^ Suc i) ip)"
  have "\<exists>i\<le>?m. ?c i \<notin> used_addresses mn"
  proof (rule ccontr)
    assume "\<not> (\<exists>i\<le>?m. ?c i \<notin> used_addresses mn)"
    then have sub: "?c ` {..?m} \<subseteq> used_addresses mn" by auto
    have inj: "inj_on ?c {..?m}"
    proof (rule inj_onI)
      fix a b assume ab: "a \<in> {..?m}" "b \<in> {..?m}" and e: "?c a = ?c b"
      have "a < 256 ^ length (nextIP ip)" "b < 256 ^ length (nextIP ip)"
        using ab assms by (simp_all add: length_nextIP)
      moreover have "IP_String ((nextIP ^^ a) (nextIP ip)) = IP_String ((nextIP ^^ b) (nextIP ip))"
        using e by (simp add: funpow_swap1)
      ultimately show "a = b" by (rule candidates_distinct)
    qed
    have fin: "finite (used_addresses mn)"
      by (simp add: used_addresses_def registered_def)
    have "Suc ?m = card (?c ` {..?m})" using inj by (simp add: card_image)
    also have "\<dots> \<le> card (used_addresses mn)" using sub fin by (rule card_mono [rotated])
    also have "\<dots> \<le> ?m" by (rule card_used_addresses)
    finally show False by simp
  qed
  then obtain i where i: "i \<le> ?m" "?c i \<notin> used_addresses mn" by blast
  define j where "j = (LEAST i. ?c i \<notin> used_addresses mn)"
  have j: "?c j \<notin> used_addresses mn" unfolding j_def using i(2) by (rule LeastI)
  have jle: "j \<le> i" unfolding j_def using i(2) by (rule Least_le)
  have before: "\<forall>k<j. isIPUsed mn (?c k)"
  proof (intro allI impI)
    fix k assume "k < j"
    then have "\<not> (?c k \<notin> used_addresses mn)" unfolding j_def by (rule not_less_Least)
    then show "isIPUsed mn (?c k)" by (simp add: isIPUsed_iff)
  qed
  have "assign_scan mn ip = Some (?c j)"
    using before j by (intro assign_scan_finds) (simp_all add: isIPUsed_iff)
  moreover have "j \<le> ?m" using jle i(1) by simp
  ultimately show ?thesis using j by blast
qed

subsection \<open>Adding servers\<close>

lemma set_update_subset: "set (AList.update k v al) \<subseteq> insert (k, v) (set al)"
  by (induction al) auto

lemma update_mem: "(k, v) \<in> set (AList.update k v al)"
  by (induction al) auto

lemma length_update_le: "length (AList.update k v al) \<le> Suc (length al)"
  by (induction al) auto

lemma AddServer_step:
  assumes inv: "mesh_inv network mn"
    and parse: "ParseCIDR (NetworkCIDR (MeshNetwork.config mn)) = Inr network"
    and len: "length (IP network) = 4" and room: "next_ref mn < 2 ^ 32"
  shows "\<exists>mn'. AddServer ParseCIDR nodeID now serverConfig mn = Some (Inr (next_ref mn), mn')
           \<and> mesh_inv network mn' \<and> next_ref mn' = Suc (next_ref mn)
           \<and> next_ref mn \<in> registered mn'
           \<and> MeshNetwork.config mn' = MeshNetwork.config mn \<and> localNode mn' = localNode mn"
proof -
  let ?r = "next_ref mn"
  have "length (nodes mn) < 256 ^ length (IP network)"
    using inv room len by (simp add: mesh_inv_def)
  from assign_scan_returns [OF this] obtain j where j: "j \<le> length (nodes mn)"
    and scan: "assign_scan mn (IP network) = Some (IP_String ((nextIP ^^ Suc j) (IP network)))"
    and fresh: "IP_String ((nextIP ^^ Suc j) (IP network)) \<notin> used_addresses mn"
    by blast
  let ?a = "IP_String ((nextIP ^^ Suc j) (IP network))"
  define node where "node =
     \<lparr>ID = nodeID, Name = Server.Name serverConfig, PublicIP = Host serverConfig,
      PrivateIP = [], MeshIP = ?a, Port = parsePort (Server.Port serverConfig),
      PublicKey = [], PrivateKey = [], Status = ''online'', LastSeen = now,
      Protocols = [Transport serverConfig], LoadScore = 0, Latency = 0,
      Tags = Server.Tags serverConfig, Region = Server.Region serverConfig,
      Capabilities = []\<rparr>"
  define mn' where "mn' = mn\<lparr>store := (store mn)(?r := node), next_ref := Suc ?r,
                              nodes := AList.update nodeID ?r (nodes mn)\<rparr>"
  have res: "AddServer ParseCIDR nodeID now serverConfig mn = Some (Inr ?r, mn')"
    using parse scan
    by (simp add: AddServer_def assignMeshIP_def probeNode_def new_node_def Let_def
        mn'_def node_def)
  have ip: "MeshIP (store mn' ?r) = ?a" by (simp add: mn'_def node_def)
  have reg_sub: "registered mn' \<subseteq> insert ?r (registered mn)"
    using set_update_subset [of nodeID ?r "nodes mn"]
    by (auto simp: registered_def mn'_def)
  have reg_new: "?r \<in> registered mn'"
    using update_mem [of nodeID ?r "nodes mn"] by (force simp: registered_def mn'_def)
  have old_lt: "\<forall>r\<in>registered mn. r < ?r" using inv by (simp add: mesh_inv_def)
  have old_store: "store mn' r = store mn r" if "r \<in> registered mn" for r
    using that old_lt by (auto simp: mn'_def)
  have i1: "length (nodes mn') \<le> next_ref mn'"
    using inv length_update_le [of nodeID ?r "nodes mn"] by (simp add: mesh_inv_def mn'_def)
  have i2: "\<forall>r\<in>registered mn'. r < next_ref mn'"
    using reg_sub old_lt by (auto simp: mn'_def less_Suc_eq)
  have i3: "inj_on (\<lambda>r. MeshIP (store mn' r)) (registered mn')"
  proof (rule inj_onI)
    fix x y assume x: "x \<in> registered mn'" and y: "y \<in> registered mn'"
      and e: "MeshIP (store mn' x) = MeshIP (store mn' y)"
    have new_old: False if "u \<in> registered mn" "MeshIP (store mn' u) = ?a" for u
    proof -
      have "MeshIP (store mn u) = ?a" using that old_store [of u] by simp
      then have "?a \<in> used_addresses mn"
        unfolding used_addresses_def using that(1) by (metis imageI)
      then show False using fresh by simp
    qed
    show "x = y"
    proof (cases "x = ?r")
      case True
      show ?thesis
      proof (cases "y = ?r")
        case False
        then have "y \<in> registered mn" using y reg_sub by auto
        then show ?thesis using new_old [of y] e True ip by simp
      qed (simp add: True)
    next
      case False
      then have xr: "x \<in> registered mn" using x reg_sub by auto
      show ?thesis
      proof (cases "y = ?r")
        case True
        then show ?thesis using new_old [of x] xr e ip by simp
      next
        case yf: False
        then have yr: "y \<in> registered mn" using y reg_sub by auto
        have "inj_on (\<lambda>r. MeshIP (store mn r)) (registered mn)"
          using inv by (simp add: mesh_inv_def)
        then show ?thesis using xr yr e old_store by (auto dest: inj_onD)
      qed
    qed
  qed
  have i4: "\<forall>r\<in>registered mn'. \<exists>j. 1 \<le> j \<and> j \<le> next_ref mn'
            \<and> MeshIP (store mn' r) = IP_String ((nextIP ^^ j) (IP network))"
  proof
    fix r assume r: "r \<in> registered mn'"
    show "\<exists>j. 1 \<le> j \<and> j \<le> next_ref mn'
            \<and> MeshIP (store mn' r) = IP_String ((nextIP ^^ j) (IP network))"
    proof (cases "r = ?r")
      case True
      have "Suc j \<le> next_ref mn'" using j inv by (simp add: mesh_inv_def mn'_def)
      then show ?thesis using True ip by (intro exI [of _ "Suc j"]) simp
    next
      case False
      then have rr: "r \<in> registered mn" using r reg_sub by auto
      then obtain i where "1 \<le> i" "i \<le> next_ref mn"
        "MeshIP (store mn r) = IP_String ((nextIP ^^ i) (IP network))"
        using inv unfolding mesh_inv_def by blast
      then show ?thesis using old_store [OF rr] by (intro exI [of _ i]) (simp add: mn'_def)
    qed
  qed
  have "mesh_inv network mn'" unfolding mesh_inv_def using i1 i2 i3 i4 by blast
  moreover have "next_ref mn' = Suc ?r" "MeshNetwork.config mn' = MeshNetwork.config mn"
    "localNode mn' = localNode mn" by (simp_all add: mn'_def)
  ultimately show ?thesis using res reg_new by blast
qed

lemma AddServers_run:
  assumes "mesh_inv network mn"
    and "ParseCIDR (NetworkCIDR (MeshNetwork.config mn)) = Inr network"
    and "length (IP network) = 4" and "next_ref mn + length calls \<le> 2 ^ 32"
  shows "\<exists>rs mn'. AddServers ParseCIDR calls mn = Some (map Inr rs, mn')
           \<and> length rs = length calls \<and> mesh_inv network mn'
           \<and> next_ref mn' = next_ref mn + length calls
           \<and> (calls \<noteq> [] \<longrightarrow> last rs \<in> registered mn')
           \<and> localNode mn' = localNode mn"
  using assms
proof (induction calls arbitrary: mn)
  case Nil
  then show ?case by simp
next
  case (Cons c calls)
  obtain nodeID now serverConfig where c: "c = (nodeID, now, serverConfig)" by (cases c)
  have "next_ref mn < 2 ^ 32" using Cons.prems(4) by simp
  with Cons.prems(1,2,3)
  have "\<exists>mn'. AddServer ParseCIDR nodeID now serverConfig mn = Some (Inr (next_ref mn), mn')
           \<and> mesh_inv network mn' \<and> next_ref mn' = Suc (next_ref mn)
           \<and> next_ref mn \<in> registered mn'
           \<and> MeshNetwork.config mn' = MeshNetwork.config mn \<and> localNode mn' = localNode mn"
    by (rule AddServer_step)
  then obtain mn1 where s: "AddServer ParseCIDR nodeID now serverConfig mn = Some (Inr (next_ref mn), mn1)"
    and i: "mesh_inv network mn1" and n: "next_ref mn1 = Suc (next_ref mn)"
    and g: "next_ref mn \<in> registered mn1"
    and cf: "MeshNetwork.config mn1 = MeshNetwork.config mn" and l: "localNode mn1 = localNode mn"
    by blast
  have p: "ParseCIDR (NetworkCIDR (MeshNetwork.config mn1)) = Inr network"
    using Cons.prems(2) cf by simp
  have b: "next_ref mn1 + length calls \<le> 2 ^ 32" using Cons.prems(4) n by simp
  from i p Cons.prems(3) b
  have "\<exists>rs mn'. AddServers ParseCIDR calls mn1 = Some (map Inr rs, mn')
           \<and> length rs = length calls \<and> mesh_inv network mn'
           \<and> next_ref mn' = next_ref mn1 + length calls
           \<and> (calls \<noteq> [] \<longrightarrow> last rs \<in> registered mn')
           \<and> localNode mn' = localNode mn1"
    by (rule Cons.IH)
  then obtain rs mn' where r: "AddServers ParseCIDR calls mn1 = Some (map Inr rs, mn')"
    and lr: "length rs = length calls" and i': "mesh_inv network mn'"
    and n': "next_ref mn' = next_ref mn1 + length calls"
    and la: "calls \<noteq> [] \<longrightarrow> last rs \<in> registered mn'" and l': "localNode mn' = localNode mn1"
    by blast
  have "AddServers ParseCIDR (c # calls) mn = Some (map Inr (next_ref mn # rs), mn')"
    using s r c by simp
  moreover have "last (next_ref mn # rs) \<in> registered mn'"
  proof (cases "calls = []")
    case True
    then have "rs = []" "mn' = mn1" using lr r by simp_all
    then show ?thesis using g by simp
  next
    case False
    then have "rs \<noteq> []" using lr by auto
    then show ?thesis using la False by simp
  qed
  ultimately show ?case using lr i' n' n l l'
    by (intro exI [of _ "next_ref mn # rs"] exI [of _ mn']) simp
qed

lemma Initialize_fresh:
  assumes "ParseCIDR (NetworkCIDR cfg) = Inr network"
  shows "\<exists>mn0. Initialize ParseCIDR nodeID now (NewMeshNetwork cfg) = Some (None, mn0)
           \<and> mesh_inv network mn0 \<and> next_ref mn0 = 1 \<and> localNode mn0 = Some 0
           \<and> MeshIP (store mn0 0) = IP_String (nextIP (IP network))
           \<and> MeshNetwork.config mn0 = cfg"
proof -
  let ?mn = "NewMeshNetwork cfg"
  have u: "\<not> isIPUsed ?mn a" for a by (simp add: isIPUsed_def NewMeshNetwork_def)
  have scan: "assign_scan ?mn (IP network) = Some (IP_String (nextIP (IP network)))"
    by (subst assign_scan.simps) (simp add: u)
  have c: "MeshNetwork.config ?mn = cfg" by (simp add: NewMeshNetwork_def)
  obtain node where node: "createLocalNode ParseCIDR nodeID now ?mn = Some (Inr node)"
    and ip: "MeshIP node = IP_String (nextIP (IP network))" and id: "ID node = nodeID"
    using assms scan by (simp add: createLocalNode_def assignMeshIP_def c)
  define mn0 where "mn0 = ?mn\<lparr>store := (store ?mn)(0 := node), next_ref := Suc 0,
      localNode := Some 0, nodes := [(nodeID, 0)]\<rparr>"
  have r: "Initialize ParseCIDR nodeID now ?mn = Some (None, mn0)"
    using node id by (simp add: Initialize_def new_node_def mn0_def NewMeshNetwork_def)
  have s: "MeshIP (store mn0 0) = IP_String ((nextIP ^^ 1) (IP network))"
    using ip by (simp add: mn0_def)
  have "mesh_inv network mn0"
    unfolding mesh_inv_def using s by (auto simp: registered_def mn0_def)
  then show ?thesis using r ip by (auto simp: mn0_def NewMeshNetwork_def)
qed

lemma block_end:
  assumes "valid_block network h"
  shows "ip_val (IP network) + 2 ^ h \<le> 256 ^ 4"
proof -
  let ?v = "ip_val (IP network)"
  from assms have h: "h \<le> 32" and d: "2 ^ h dvd ?v" and l: "length (IP network) = 4"
    by (simp_all add: valid_block_def)
  obtain q where q: "?v = 2 ^ h * q" using d by (auto elim: dvdE)
  have p: "(256::nat) ^ 4 = 2 ^ h * 2 ^ (32 - h)"
    using h by (simp add: power_add [symmetric])
  have "?v < 256 ^ 4" using ip_val_bound [of "IP network"] l by simp
  then have "2 ^ h * q < 2 ^ h * 2 ^ (32 - h)" using q p by simp
  then have "q < 2 ^ (32 - h)" by simp
  then have "Suc q \<le> 2 ^ (32 - h)" by simp
  then have "2 ^ h * Suc q \<le> 2 ^ h * 2 ^ (32 - h)" by (rule mult_le_mono2)
  then show ?thesis using q p by simp
qed

lemma usable_offset:
  assumes "valid_block network h" and "1 \<le> j" and "j \<le> 2 ^ h - 2"
  shows "usable network h (IP_String ((nextIP ^^ j) (IP network)))"
proof -
  let ?v = "ip_val (IP network)"
  let ?ip = "(nextIP ^^ j) (IP network)"
  have l: "length (IP network) = 4" and h2: "2 \<le> h" using assms(1) by (simp_all add: valid_block_def)
  have "(2::nat) ^ 2 \<le> 2 ^ h" using h2 by (rule power_increasing) simp
  then have four: "(4::nat) \<le> 2 ^ h" by simp
  have "?v + j < ?v + 2 ^ h" using assms(3) four by simp
  then have lt: "?v + j < 256 ^ 4" using block_end [OF assms(1)] by simp
  have "ip_val ?ip = (?v + j) mod 256 ^ 4" by (simp add: ip_val_funpow_nextIP l)
  then have v: "ip_val ?ip = ?v + j" using lt by simp
  have "length ?ip = 4" by (simp add: length_funpow_nextIP l)
  moreover have "?v < ip_val ?ip" using v assms(2) by simp
  moreover have "ip_val ?ip < ?v + 2 ^ h - 1" using v assms(3) four by simp
  ultimately show ?thesis unfolding usable_def by blast
qed

text \<open>
  C1, as the code has it. For a valid IPv4 block with \<open>h\<close> host bits, that is with
  \<open>N = 2 ^ h - 2\<close> usable addresses: \<open>Initialize\<close> succeeds and gives the local node the
  first address after the network address; each of the next \<open>N - 1\<close> calls of \<open>AddServer\<close>
  returns a node (none fails and none runs forever); and after them, as after each of
  them, the node returned last is registered, no two registered nodes have the same
  address, and every registered address is a usable address of the block.
\<close>

theorem AddServer_unique_addresses_in_block:
  assumes "ParseCIDR (NetworkCIDR cfg) = Inr network" and "valid_block network h"
    and "length calls \<le> 2 ^ h - 3"
  shows "\<exists>mn0 rs mn. Initialize ParseCIDR nodeID now (NewMeshNetwork cfg) = Some (None, mn0)
           \<and> localNode mn0 = Some 0 \<and> MeshIP (store mn0 0) = IP_String (nextIP (IP network))
           \<and> AddServers ParseCIDR calls mn0 = Some (map Inr rs, mn) \<and> length rs = length calls
           \<and> (calls \<noteq> [] \<longrightarrow> last rs \<in> registered mn)
           \<and> inj_on (\<lambda>r. MeshIP (store mn r)) (registered mn)
           \<and> (\<forall>r\<in>registered mn. usable network h (MeshIP (store mn r)))"
proof -
  have l: "length (IP network) = 4" and h2: "2 \<le> h" using assms(2) by (simp_all add: valid_block_def)
  have "(2::nat) ^ 2 \<le> 2 ^ h" using h2 by (rule power_increasing) simp
  then have four: "(4::nat) \<le> 2 ^ h" by simp
  have big: "(2::nat) ^ h \<le> 2 ^ 32" using block_end [OF assms(2)] by simp
  from assms(1)
  have "\<exists>mn0. Initialize ParseCIDR nodeID now (NewMeshNetwork cfg) = Some (None, mn0)
           \<and> mesh_inv network mn0 \<and> next_ref mn0 = 1 \<and> localNode mn0 = Some 0
           \<and> MeshIP (store mn0 0) = IP_String (nextIP (IP network))
           \<and> MeshNetwork.config mn0 = cfg"
    by (rule Initialize_fresh)
  then obtain mn0 where init: "Initialize ParseCIDR nodeID now (NewMeshNetwork cfg) = Some (None, mn0)"
    and inv0: "mesh_inv network mn0" and n0: "next_ref mn0 = 1" and l0: "localNode mn0 = Some 0"
    and a0: "MeshIP (store mn0 0) = IP_String (nextIP (IP network))"
    and c0: "MeshNetwork.config mn0 = cfg"
    by blast
  have p: "ParseCIDR (NetworkCIDR (MeshNetwork.config mn0)) = Inr network"
    using assms(1) c0 by simp
  have b: "next_ref mn0 + length calls \<le> 2 ^ 32" using n0 assms(3) four big by simp
  from inv0 p l b
  have "\<exists>rs mn'. AddServers ParseCIDR calls mn0 = Some (map Inr rs, mn')
           \<and> length rs = length calls \<and> mesh_inv network mn'
           \<and> next_ref mn' = next_ref mn0 + length calls
           \<and> (calls \<noteq> [] \<longrightarrow> last rs \<in> registered mn')
           \<and> localNode mn' = localNode mn0"
    by (rule AddServers_run)
  then obtain rs mn where run: "AddServers ParseCIDR calls mn0 = Some (map Inr rs, mn)"
    and lr: "length rs = length calls" and inv: "mesh_inv network mn"
    and n: "next_ref mn = next_ref mn0 + length calls"
    and la: "calls \<noteq> [] \<longrightarrow> last rs \<in> registered mn"
    by blast
  have nb: "next_ref mn \<le> 2 ^ h - 2" using n n0 assms(3) four by simp
  have inj: "inj_on (\<lambda>r. MeshIP (store mn r)) (registered mn)"
    using inv by (simp add: mesh_inv_def)
  have us: "\<forall>r\<in>registered mn. usable network h (MeshIP (store mn r))"
  proof
    fix r assume "r \<in> registered mn"
    then obtain j where "1 \<le> j" "j \<le> next_ref mn"
      "MeshIP (store mn r) = IP_String ((nextIP ^^ j) (IP network))"
      using inv unfolding mesh_inv_def by blast
    then show "usable network h (MeshIP (store mn r))"
      using usable_offset [OF assms(2), of j] nb by simp
  qed
  show ?thesis using init l0 a0 run lr la inj us by blast
qed

lemmas address_eval = ubtoa_def digit_simps nextIP_def

lemma eval_init24:
  "Initialize (parse_only ''10.99.0.0/24'' net24) ''node-10'' 10
       (NewMeshNetwork (a_mesh_config ''latency'')) = Some (None, mesh24_local)
   \<and> MeshIP (store mesh24_local 0) = ''10.99.0.1''
   \<and> nodes mesh24_local = [(''node-10'', 0)] \<and> next_ref mesh24_local = 1"
  unfolding mesh24_local_def
  by (simp add: Initialize_def createLocalNode_def assignMeshIP_def assign_scan.simps
      isIPUsed_def NewMeshNetwork_def a_mesh_config_def parse_only_def net24_def new_node_def
      address_eval)

lemmas mesh_run_defs = Initialize_def createLocalNode_def AddServer_def assignMeshIP_def
  assign_scan.simps isIPUsed_def NewMeshNetwork_def a_mesh_config_def parse_only_def
  new_node_def probeNode_def parsePort_def a_server_def three_calls_def address_eval

lemma eval_three24:
  "AddServers (parse_only ''10.99.0.0/24'' net24) three_calls mesh24_local
     = Some ([Inr 1, Inr 2, Inr 3], mesh24_three)
   \<and> map (\<lambda>r. MeshIP (store mesh24_three r)) [0, 1, 2, 3]
       = [''10.99.0.1'', ''10.99.0.2'', ''10.99.0.3'', ''10.99.0.4'']"
  unfolding mesh24_three_def mesh24_local_def
  by (simp add: mesh_run_defs net24_def)

lemma eval_three30:
  "Initialize (parse_only ''10.99.0.0/30'' net30) ''node-10'' 10 mesh30 = Some (None, mesh30_local)
   \<and> AddServers (parse_only ''10.99.0.0/30'' net30) three_calls mesh30_local
     = Some ([Inr 1, Inr 2, Inr 3], mesh30_three)
   \<and> map (\<lambda>r. MeshIP (store mesh30_three r)) [0, 1, 2, 3]
       = [''10.99.0.1'', ''10.99.0.2'', ''10.99.0.3'', ''10.99.0.4'']"
  unfolding mesh30_three_def mesh30_local_def mesh30_def
  by (simp add: mesh_run_defs net30_def)

lemma valid_block_net24: "valid_block net24 8"
  by (simp add: valid_block_def net24_def ip_val_def)

lemma valid_block_net30: "valid_block net30 2"
  by (simp add: valid_block_def net30_def ip_val_def)

lemma not_usable_3: "\<not> usable net30 2 ''10.99.0.3''"
proof
  assume "usable net30 2 ''10.99.0.3''"
  then obtain ip where ip: "''10.99.0.3'' = IP_String ip" "length ip = 4"
    and r: "ip_val ip < ip_val (IP net30) + 2 ^ 2 - 1"
    unfolding usable_def by blast
  have "IP_String [10, 99, 0, 3] = ''10.99.0.3''" by (simp add: address_eval)
  then have "ip = [10, 99, 0, 3]" using ip by (intro IP_String_eq_bytes) simp_all
  then show False using r by (simp add: net30_def ip_val_def)
qed

lemma not_in_block_4: "\<not> in_block net30 2 ''10.99.0.4''"
proof
  assume "in_block net30 2 ''10.99.0.4''"
  then obtain ip where ip: "''10.99.0.4'' = IP_String ip" "length ip = 4"
    and r: "ip_val ip < ip_val (IP net30) + 2 ^ 2"
    unfolding in_block_def by blast
  have "IP_String [10, 99, 0, 4] = ''10.99.0.4''" by (simp add: address_eval)
  then have "ip = [10, 99, 0, 4]" using ip by (intro IP_String_eq_bytes) simp_all
  then show False using r by (simp add: net30_def ip_val_def)
qed

theorem AddServer_unique_addresses_in_block_witness:
  "parse_only ''10.99.0.0/24'' net24 (NetworkCIDR (a_mesh_config ''latency'')) = Inr net24
   \<and> valid_block net24 8 \<and> length three_calls \<le> 2 ^ 8 - 3
   \<and> Initialize (parse_only ''10.99.0.0/24'' net24) ''node-10'' 10
        (NewMeshNetwork (a_mesh_config ''latency'')) = Some (None, mesh24_local)
   \<and> AddServers (parse_only ''10.99.0.0/24'' net24) three_calls mesh24_local
        = Some ([Inr 1, Inr 2, Inr 3], mesh24_three)
   \<and> map (\<lambda>r. MeshIP (store mesh24_three r)) [0, 1, 2, 3]
        = [''10.99.0.1'', ''10.99.0.2'', ''10.99.0.3'', ''10.99.0.4'']
   \<and> (\<exists>mn0 rs mn.
         Initialize (parse_only ''10.99.0.0/24'' net24) ''node-10'' 10
           (NewMeshNetwork (a_mesh_config ''latency'')) = Some (None, mn0)
         \<and> localNode mn0 = Some 0 \<and> MeshIP (store mn0 0) = IP_String (nextIP (IP net24))
         \<and> AddServers (parse_only ''10.99.0.0/24'' net24) three_calls mn0 = Some (map Inr rs, mn)
         \<and> length rs = length three_calls
         \<and> (three_calls \<noteq> [] \<longrightarrow> last rs \<in> registered mn)
         \<and> inj_on (\<lambda>r. MeshIP (store mn r)) (registered mn)
         \<and> (\<forall>r\<in>registered mn. usable net24 8 (MeshIP (store mn r))))"
proof -
  have h1: "parse_only ''10.99.0.0/24'' net24 (NetworkCIDR (a_mesh_config ''latency'')) = Inr net24"
    by (simp add: parse_only_def a_mesh_config_def)
  have h3: "length three_calls \<le> 2 ^ 8 - 3" by (simp add: three_calls_def)
  from h1 valid_block_net24 h3
  have "\<exists>mn0 rs mn.
         Initialize (parse_only ''10.99.0.0/24'' net24) ''node-10'' 10
           (NewMeshNetwork (a_mesh_config ''latency'')) = Some (None, mn0)
         \<and> localNode mn0 = Some 0 \<and> MeshIP (store mn0 0) = IP_String (nextIP (IP net24))
         \<and> AddServers (parse_only ''10.99.0.0/24'' net24) three_calls mn0 = Some (map Inr rs, mn)
         \<and> length rs = length three_calls
         \<and> (three_calls \<noteq> [] \<longrightarrow> last rs \<in> registered mn)
         \<and> inj_on (\<lambda>r. MeshIP (store mn r)) (registered mn)
         \<and> (\<forall>r\<in>registered mn. usable net24 8 (MeshIP (store mn r)))"
    by (rule AddServer_unique_addresses_in_block)
  with h1 valid_block_net24 h3 eval_init24 eval_three24 show ?thesis by blast
qed

text \<open>
  C1 as stated (the Nth call fails with \<open>AddressExhausted\<close> and no address outside the
  block is assigned) fails: the scan has no bound. The block \<open>10.99.0.0/30\<close> has
  \<open>N = 2\<close> usable addresses; the local node takes \<open>10.99.0.1\<close> and the first call
  \<open>10.99.0.2\<close>; the second call, the Nth, returns a node with the broadcast address
  \<open>10.99.0.3\<close>, and the third a node with \<open>10.99.0.4\<close>, outside the block.
\<close>

theorem AddServer_exhaustion_counterexample:
  "valid_block net30 2
   \<and> Initialize (parse_only ''10.99.0.0/30'' net30) ''node-10'' 10 mesh30 = Some (None, mesh30_local)
   \<and> AddServers (parse_only ''10.99.0.0/30'' net30) three_calls mesh30_local
        = Some ([Inr 1, Inr 2, Inr 3], mesh30_three)
   \<and> map (\<lambda>r. MeshIP (store mesh30_three r)) [0, 1, 2, 3]
        = [''10.99.0.1'', ''10.99.0.2'', ''10.99.0.3'', ''10.99.0.4'']
   \<and> \<not> usable net30 2 ''10.99.0.3'' \<and> \<not> in_block net30 2 ''10.99.0.4''"
  using valid_block_net30 eval_three30 not_usable_3 not_in_block_4 by blast

section \<open>Encrypting and decrypting the configuration\<close>









text \<open>
  Digests have 32 bytes and passphrases are unbounded, so no digest tells all
  passphrases apart; this is why the rejection is stated for different digests.
\<close>

lemma digests_collide:
  fixes f :: "string \<Rightarrow> string"
  assumes "\<forall>password. length (f password) = 32"
  shows "\<exists>pw1 pw2. pw1 \<noteq> [] \<and> pw2 \<noteq> [] \<and> pw1 \<noteq> pw2 \<and> f pw1 = f (pw2 :: string)"
proof (rule ccontr)
  assume c: "\<not> (\<exists>pw1 pw2. pw1 \<noteq> [] \<and> pw2 \<noteq> [] \<and> pw1 \<noteq> pw2 \<and> f pw1 = f pw2)"
  let ?A = "{pw :: string. pw \<noteq> []}"
  have inj: "inj_on f ?A" using c by (auto simp: inj_on_def)
  have "f ` ?A \<subseteq> {s :: string. set s \<subseteq> UNIV \<and> length s = 32}" using assms by auto
  moreover have "finite {s :: string. set s \<subseteq> UNIV \<and> length s = 32}"
    by (rule finite_lists_length_eq) simp
  ultimately have "finite (f ` ?A)" by (rule finite_subset)
  then have "finite ?A" using inj by (rule finite_imageD)
  moreover have "?A = UNIV - {[]}" by auto
  ultimately have "finite (UNIV :: string set)" by simp
  then show False using infinite_UNIV_listI by blast
qed
end
